(* ===== verification/C_Prelude.thy ===== *)
theory C_Prelude
  imports Main "HOL-Library.Word" "HOL-Library.Monad_Syntax" "HOL-Library.Sublist"
begin

section \<open>The C machine model shared by every component\<close>

text \<open>
  What the components share: the C integer types the bridge uses, memory blocks and the
  bounded copy, NUL-terminated strings, the truncating \<open>snprintf\<close>, and the generic
  lemmas about them.

  A C function is a HOL function into \<open>option\<close>. \<open>Some r\<close> means that the call returns
  \<open>r\<close>; \<open>None\<close> means that the C semantics gives no result: an access outside a block,
  a division by zero, a use of a destroyed or already held mutex, or a loop that never
  ends. A theorem that concludes \<open>\<dots> = Some r\<close> therefore states memory safety and
  termination together with the result.

  A pointer to an object of type \<open>'a\<close> is \<open>'a option\<close>, with \<open>None\<close> for \<open>NULL\<close>.
  A \<open>size_t\<close> is a natural number below \<open>2 ^ 64\<close>, and every operation of the code on one
  is written with its wrap-around (\<open>sz_add\<close>, \<open>sz_sub\<close>); a \<open>uint8_t\<close>,
  \<open>uint32_t\<close> or \<open>uint64_t\<close> is a word.
\<close>

unbundle bit_operations_syntax

named_theorems c_simps \<open>results of the C primitives under their bounds\<close>

type_synonym byte = "8 word"
type_synonym u32 = "32 word"
type_synonym u64 = "64 word"
type_synonym 'a ptr = "'a option"

subsection \<open>Arithmetic on \<open>size_t\<close>\<close>

definition sz_add :: "nat \<Rightarrow> nat \<Rightarrow> nat" where
  "sz_add a b = (a + b) mod 2 ^ 64"

definition sz_sub :: "nat \<Rightarrow> nat \<Rightarrow> nat" where
  "sz_sub a b = (a + (2 ^ 64 - b mod 2 ^ 64)) mod 2 ^ 64"

definition sz_mul :: "nat \<Rightarrow> nat \<Rightarrow> nat" where
  "sz_mul a b = (a * b) mod 2 ^ 64"

text \<open>The remainder: a zero divisor is undefined.\<close>

definition sz_mod :: "nat \<Rightarrow> nat \<Rightarrow> nat option" where
  "sz_mod a b = (if b = 0 then None else Some (a mod b))"

lemma sz_add_small [c_simps]: "a + b < 2 ^ 64 \<Longrightarrow> sz_add a b = a + b"
  by (simp add: sz_add_def)

lemma sz_sub_small [c_simps]: "b \<le> a \<Longrightarrow> a < 2 ^ 64 \<Longrightarrow> sz_sub a b = a - b"
proof -
  assume "b \<le> a" and "a < 2 ^ 64"
  then have "a + (2 ^ 64 - b mod 2 ^ 64) = (a - b) + 2 ^ 64" by simp
  then have "sz_sub a b = ((a - b) + 2 ^ 64) mod 2 ^ 64" by (simp only: sz_sub_def)
  also have "\<dots> = (a - b) mod 2 ^ 64" by (rule mod_add_self2)
  also have "\<dots> = a - b" using \<open>a < 2 ^ 64\<close> by simp
  finally show ?thesis .
qed

lemma sz_mul_small [c_simps]: "a * b < 2 ^ 64 \<Longrightarrow> sz_mul a b = a * b"
  by (simp add: sz_mul_def)

lemma sz_mod_pos [c_simps]: "0 < b \<Longrightarrow> sz_mod a b = Some (a mod b)"
  by (simp add: sz_mod_def)

lemma unat_u32 [c_simps]: "k < 2 ^ 32 \<Longrightarrow> unat (word_of_nat k :: u32) = k"
  by (simp add: unat_of_nat take_bit_eq_mod)

lemma unat_u64 [c_simps]: "k < 2 ^ 64 \<Longrightarrow> unat (word_of_nat k :: u64) = k"
  by (simp add: unat_of_nat take_bit_eq_mod)

lemma sint_small [c_simps]: "k < 2 ^ 31 \<Longrightarrow> sint (word_of_nat k :: 32 word) = int k"
  by (simp add: signed_of_nat signed_take_bit_int_eq_self)

text \<open>Two's complement negative differences do wrap: \<open>2 - 5\<close> is huge.\<close>

lemma sz_sub_wraps: "sz_sub 2 5 = 18446744073709551613"
  by (simp add: sz_sub_def)

subsection \<open>Memory blocks\<close>

text \<open>
  \<open>memcpy dst d src s n\<close> copies \<open>n\<close> elements of the block \<open>src\<close>, from offset \<open>s\<close>,
  into the block \<open>dst\<close> at offset \<open>d\<close>, and returns the new contents of \<open>dst\<close>.
  It is undefined when either range leaves its block.
\<close>

definition memcpy :: "'a list \<Rightarrow> nat \<Rightarrow> 'a list \<Rightarrow> nat \<Rightarrow> nat \<Rightarrow> 'a list option" where
  "memcpy dst d src s n =
     (if d + n \<le> length dst \<and> s + n \<le> length src
      then Some (take d dst @ take n (drop s src) @ drop (d + n) dst)
      else None)"

lemma memcpy_ok [c_simps]:
  "d + n \<le> length dst \<Longrightarrow> s + n \<le> length src \<Longrightarrow>
   memcpy dst d src s n = Some (take d dst @ take n (drop s src) @ drop (d + n) dst)"
  by (simp add: memcpy_def)

lemma memcpy_length: "memcpy dst d src s n = Some dst' \<Longrightarrow> length dst' = length dst"
  by (auto simp: memcpy_def split: if_splits)

text \<open>\<open>store b i x\<close> is \<open>b[i] = x\<close>.\<close>

definition store :: "'a list \<Rightarrow> nat \<Rightarrow> 'a \<Rightarrow> 'a list option" where
  "store b i x = (if i < length b then Some (b[i := x]) else None)"

lemma store_ok [c_simps]: "i < length b \<Longrightarrow> store b i x = Some (b[i := x])"
  by (simp add: store_def)

text \<open>
  \<open>realloc p n\<close>: the block \<open>p\<close> (\<open>NULL\<close> for none) cut or extended to \<open>n\<close> bytes.
  The code never looks at the bytes beyond the old contents before it has written them, nor at
  a failure: exhaustion of memory is outside the model.
\<close>

definition realloc :: "byte list ptr \<Rightarrow> nat \<Rightarrow> byte list" where
  "realloc p n = (let b = (case p of None \<Rightarrow> [] | Some b \<Rightarrow> b) in take n b @ replicate (n - length b) 0)"

lemma length_realloc [simp]: "length (realloc p n) = n"
  by (simp add: realloc_def Let_def split: option.splits)

lemma take_realloc: "k \<le> length b \<Longrightarrow> k \<le> n \<Longrightarrow> take k (realloc (Some b) n) = take k b"
  by (simp add: realloc_def Let_def min_def)

text \<open>
  The block behind a data pointer that is only read. \<open>NULL\<close> stands for a block with no
  bytes: copying zero bytes from it copies nothing, copying more is undefined.
\<close>

definition block_of :: "'a list ptr \<Rightarrow> 'a list" where
  "block_of p = (case p of None \<Rightarrow> [] | Some bs \<Rightarrow> bs)"

lemma block_of_simps [simp]: "block_of None = []" "block_of (Some bs) = bs"
  by (simp_all add: block_of_def)

subsection \<open>C strings\<close>

text \<open>
  The value of a C string is the list of its bytes before the terminating NUL. Text is
  written as an Isabelle string and encoded byte by byte. \<open>c_str\<close> reads the string at the
  start of a block; it is undefined in a block without a NUL.
\<close>

type_synonym cstring = "byte list"

definition bytes :: "string \<Rightarrow> byte list" where
  "bytes s = map (\<lambda>c. of_nat (of_char c)) s"

lemma bytes_simps [simp]:
  "bytes [] = []"
  "bytes (c # s) = of_nat (of_char c) # bytes s"
  "bytes (s @ t) = bytes s @ bytes t"
  "length (bytes s) = length s"
  by (simp_all add: bytes_def)

fun c_str :: "byte list \<Rightarrow> cstring option" where
  "c_str [] = None"
| "c_str (b # bs) = (if b = 0 then Some [] else map_option ((#) b) (c_str bs))"

text \<open>What a C function sees of a string that may hold NUL bytes.\<close>

definition until_nul :: "byte list \<Rightarrow> cstring" where
  "until_nul s = takeWhile (\<lambda>b. b \<noteq> 0) s"

lemma c_str_terminated [simp]: "0 \<notin> set s \<Longrightarrow> c_str (s @ 0 # rest) = Some s"
  by (induction s) auto

lemma c_str_append_nul: "c_str (s @ 0 # rest) = Some (until_nul s)"
  by (induction s) (auto simp: until_nul_def)

lemma until_nul_no_nul [simp]: "0 \<notin> set (until_nul s)"
  by (auto simp: until_nul_def dest: set_takeWhileD)

lemma until_nul_id [simp]: "0 \<notin> set s \<Longrightarrow> until_nul s = s"
  by (induction s) (auto simp: until_nul_def)

lemma until_nul_length: "length (until_nul s) \<le> length s"
  by (simp add: until_nul_def length_takeWhile_le)

text \<open>
  \<open>snprintf\<close> into a buffer of \<open>n > 0\<close> bytes: it returns the length of the whole text and
  leaves its first \<open>n - 1\<close> bytes in the buffer.
\<close>

definition snprintf :: "nat \<Rightarrow> byte list \<Rightarrow> nat \<times> cstring" where
  "snprintf n txt = (length txt, take (n - 1) txt)"

lemma snprintf_fits [c_simps]: "length txt < n \<Longrightarrow> snprintf n txt = (length txt, txt)"
  by (simp add: snprintf_def)

text \<open>
  \<open>strncmp(a, b, n) == 0\<close> on strings, and the tokens that \<open>strtok_r(s, "\n", \<dots>)\<close> yields
  one after the other: the maximal runs of other bytes, none of them empty.
\<close>

definition strncmp_eq :: "cstring \<Rightarrow> cstring \<Rightarrow> nat \<Rightarrow> bool" where
  "strncmp_eq a b n \<longleftrightarrow> take n (a @ [0]) = take n (b @ [0])"

fun tokens_from :: "byte \<Rightarrow> cstring \<Rightarrow> cstring \<Rightarrow> cstring list" where
  "tokens_from d cur [] = (if cur = [] then [] else [cur])"
| "tokens_from d cur (b # bs) =
     (if b = d then (if cur = [] then tokens_from d [] bs else cur # tokens_from d [] bs)
      else tokens_from d (cur @ [b]) bs)"

definition strtok_nl :: "cstring \<Rightarrow> cstring list" where
  "strtok_nl s = tokens_from 10 [] s"

lemma tokens_from_sound:
  "t \<in> set (tokens_from d cur s) \<Longrightarrow> d \<notin> set cur \<Longrightarrow> t \<noteq> [] \<and> d \<notin> set t"
  by (induction d cur s rule: tokens_from.induct) (auto split: if_splits)

lemma strtok_nl_sound: "t \<in> set (strtok_nl s) \<Longrightarrow> t \<noteq> [] \<and> 10 \<notin> set t"
  unfolding strtok_nl_def using tokens_from_sound by fastforce

lemma tokens_from_run: "d \<notin> set x \<Longrightarrow> tokens_from d cur (x @ rest) = tokens_from d (cur @ x) rest"
  by (induction x arbitrary: cur) auto

lemma strtok_nl_line:
  assumes "10 \<notin> set x" "x \<noteq> []"
  shows "strtok_nl (x @ 10 # rest) = x # strtok_nl rest" "strtok_nl x = [x]"
  using tokens_from_run [OF assms(1), of "[]" "10 # rest"] tokens_from_run [OF assms(1), of "[]" "[]"] assms(2)
  by (simp_all add: strtok_nl_def)

lemma strncmp_eq_prefix: "0 \<notin> set a \<Longrightarrow> strncmp_eq a b (length a) \<longleftrightarrow> prefix a b"
proof -
  assume nz: "0 \<notin> set a"
  have "take (length a) (b @ [0]) = a \<longleftrightarrow> prefix a b"
  proof
    assume t: "take (length a) (b @ [0]) = a"
    have "length a \<le> length b"
    proof (rule ccontr)
      assume "\<not> length a \<le> length b"
      then have "take (length a) (b @ [0]) = b @ [0]" by simp
      with t nz show False by (metis in_set_conv_decomp)
    qed
    with t show "prefix a b" by (metis append_take_drop_id diff_is_0_eq prefixI take0 take_append append_Nil2)
  next
    assume "prefix a b"
    then show "take (length a) (b @ [0]) = a" by (auto simp: prefix_def)
  qed
  then show ?thesis by (auto simp: strncmp_eq_def)
qed

text \<open>The decimal digits that \<open>%d\<close> prints.\<close>

fun digits :: "nat \<Rightarrow> string" where
  "digits n = (if n < 10 then [char_of (48 + n)] else digits (n div 10) @ [char_of (48 + n mod 10)])"

declare digits.simps [simp del]

definition decimal :: "int \<Rightarrow> string" where
  "decimal i = (if i < 0 then CHR ''-'' # digits (nat (- i)) else digits (nat i))"

lemma length_digits: "n < 10 ^ Suc k \<Longrightarrow> length (digits n) \<le> Suc k"
proof (induction k arbitrary: n)
  case 0
  then show ?case by (simp add: digits.simps)
next
  case (Suc k)
  show ?case
  proof (cases "n < 10")
    case True
    then show ?thesis by (simp add: digits.simps)
  next
    case False
    have "n div 10 < 10 ^ Suc k" using Suc.prems by (simp add: less_mult_imp_div_less)
    from Suc.IH [OF this] False show ?thesis by (subst digits.simps) simp
  qed
qed

lemma length_decimal: "- (2 ^ 31) \<le> i \<Longrightarrow> i < 2 ^ 31 \<Longrightarrow> length (decimal i) \<le> 11"
proof -
  assume "- (2 ^ 31) \<le> i" "i < 2 ^ 31"
  then have "nat i < 10 ^ Suc 9" "nat (- i) < 10 ^ Suc 9" by simp_all
  from this [THEN length_digits] show ?thesis by (simp add: decimal_def)
qed

subsection \<open>Generic lemmas\<close>

lemma mod_wrap:
  fixes a n :: nat
  assumes "a < 2 * n"
  shows "a mod n = (if a < n then a else a - n)"
  using assms by (auto simp: mod_if)

lemma in_set_tlD: "x \<in> set (tl xs) \<Longrightarrow> x \<in> set xs"
  by (cases xs) auto

lemma bind_Some_iff [simp]: "(Option.bind m f = Some y) \<longleftrightarrow> (\<exists>x. m = Some x \<and> f x = Some y)"
  by (rule bind_eq_Some_conv)

end
