(* ===== verification/Ring_Buffer.thy ===== *)
theory Ring_Buffer
  imports C_Prelude
begin

section \<open>The ring buffer\<close>

text \<open>
  \<open>c_ffi/ring_buffer.h\<close> and \<open>c_ffi/ring_buffer.c\<close>: the record \<open>ring_buffer\<close> is
  \<open>ring_buffer_t\<close>, one definition per function, in the order of the file.
\<close>

subsection \<open>Constants and the frame header\<close>

definition RB_MSG_STDOUT :: byte where "RB_MSG_STDOUT = 0"
definition RB_MSG_STDERR :: byte where "RB_MSG_STDERR = 1"
definition RB_MSG_RESULT :: byte where "RB_MSG_RESULT = 2"
definition RB_MSG_R_ERROR :: byte where "RB_MSG_R_ERROR = 3"
definition RB_MSG_INTERNAL_ERROR :: byte where "RB_MSG_INTERNAL_ERROR = 4"
definition RB_MSG_DONE :: byte where "RB_MSG_DONE = 5"
definition RB_MSG_IMAGE :: byte where "RB_MSG_IMAGE = 6"
definition RB_MSG_NOTICE :: byte where "RB_MSG_NOTICE = 7"
definition RB_MSG_PASSTHROUGH :: byte where "RB_MSG_PASSTHROUGH = 8"
definition RB_MSG_PASSTHROUGH_END :: byte where "RB_MSG_PASSTHROUGH_END = 9"
definition RB_MSG_COMPLETIONS :: byte where "RB_MSG_COMPLETIONS = 10"
definition RB_MSG_READLINE :: byte where "RB_MSG_READLINE = 11"

lemmas rb_msg_defs = RB_MSG_STDOUT_def RB_MSG_STDERR_def RB_MSG_RESULT_def RB_MSG_R_ERROR_def
  RB_MSG_INTERNAL_ERROR_def RB_MSG_DONE_def RB_MSG_IMAGE_def RB_MSG_NOTICE_def
  RB_MSG_PASSTHROUGH_def RB_MSG_PASSTHROUGH_END_def RB_MSG_COMPLETIONS_def RB_MSG_READLINE_def

definition RB_FLAG_NONE :: byte where "RB_FLAG_NONE = 0"
definition RB_FLAG_TRUNCATED :: byte where "RB_FLAG_TRUNCATED = 1"

definition RB_OK :: int where "RB_OK = 0"
definition RB_EMPTY :: int where "RB_EMPTY = 1"
definition RB_TRUNCATED_COPY :: int where "RB_TRUNCATED_COPY = 2"
definition RB_ERROR :: int where "RB_ERROR = 3"

lemmas rb_code_defs = RB_OK_def RB_EMPTY_def RB_TRUNCATED_COPY_def RB_ERROR_def

record rb_frame_header =
  hdr_kind :: byte
  hdr_flags :: byte
  hdr_len :: u32

text \<open>
  The packed struct as it lies in memory on the little-endian targets (x86-64 and arm64):
  one byte, one byte, four bytes of length.
\<close>

definition RB_FRAME_HEADER_SIZE :: nat where "RB_FRAME_HEADER_SIZE = 6"

definition hdr_bytes :: "rb_frame_header \<Rightarrow> byte list" where
  "hdr_bytes h = [hdr_kind h, hdr_flags h, ucast (hdr_len h), ucast (drop_bit 8 (hdr_len h)),
     ucast (drop_bit 16 (hdr_len h)), ucast (drop_bit 24 (hdr_len h))]"

definition hdr_of_bytes :: "byte list \<Rightarrow> rb_frame_header" where
  "hdr_of_bytes bs = \<lparr>hdr_kind = bs ! 0, hdr_flags = bs ! 1,
     hdr_len = ucast (bs ! 2) OR push_bit 8 (ucast (bs ! 3)) OR push_bit 16 (ucast (bs ! 4))
       OR push_bit 24 (ucast (bs ! 5))\<rparr>"

subsection \<open>The state\<close>

text \<open>
  The mutex is a default \<open>pthread_mutex_t\<close>: locking it while it is held never returns,
  and using it before \<open>pthread_mutex_init\<close> or after \<open>pthread_mutex_destroy\<close> is
  undefined.
\<close>

datatype mutex = Mutex_none | Mutex_free | Mutex_held

record ring_buffer =
  rbuf :: "byte list ptr"
  rcap :: nat
  rhead :: nat
  rtail :: nat
  rused :: nat
  rdropped_messages :: u64
  rdropped_bytes :: u64
  rlock :: mutex

definition rb_mutex_lock :: "ring_buffer \<Rightarrow> ring_buffer option" where
  "rb_mutex_lock rb = (if rlock rb = Mutex_free then Some (rb\<lparr>rlock := Mutex_held\<rparr>) else None)"

definition rb_mutex_unlock :: "ring_buffer \<Rightarrow> ring_buffer option" where
  "rb_mutex_unlock rb = (if rlock rb = Mutex_held then Some (rb\<lparr>rlock := Mutex_free\<rparr>) else None)"

subsection \<open>Internal helpers (the caller holds the lock)\<close>

definition ring_write :: "ring_buffer \<Rightarrow> byte list \<Rightarrow> nat \<Rightarrow> ring_buffer option" where
  "ring_write rb s n = do {
     b \<leftarrow> rbuf rb;
     let first = sz_sub (rcap rb) (rhead rb);
     b' \<leftarrow> (if n \<le> first then memcpy b (rhead rb) s 0 n
           else do {
             b1 \<leftarrow> memcpy b (rhead rb) s 0 first;
             memcpy b1 0 s first (sz_sub n first)
           });
     h \<leftarrow> sz_mod (sz_add (rhead rb) n) (rcap rb);
     Some (rb\<lparr>rbuf := Some b', rhead := h, rused := sz_add (rused rb) n\<rparr>)
   }"

definition ring_read :: "ring_buffer \<Rightarrow> byte list \<Rightarrow> nat \<Rightarrow> (byte list \<times> ring_buffer) option" where
  "ring_read rb d n = do {
     b \<leftarrow> rbuf rb;
     let first = sz_sub (rcap rb) (rtail rb);
     d' \<leftarrow> (if n \<le> first then memcpy d 0 b (rtail rb) n
           else do {
             d1 \<leftarrow> memcpy d 0 b (rtail rb) first;
             memcpy d1 first b 0 (sz_sub n first)
           });
     t \<leftarrow> sz_mod (sz_add (rtail rb) n) (rcap rb);
     Some (d', rb\<lparr>rtail := t, rused := sz_sub (rused rb) n\<rparr>)
   }"

definition ring_peek :: "ring_buffer \<Rightarrow> byte list \<Rightarrow> nat \<Rightarrow> byte list option" where
  "ring_peek rb d n = do {
     b \<leftarrow> rbuf rb;
     let first = sz_sub (rcap rb) (rtail rb);
     (if n \<le> first then memcpy d 0 b (rtail rb) n
      else do {
        d1 \<leftarrow> memcpy d 0 b (rtail rb) first;
        memcpy d1 first b 0 (sz_sub n first)
      })
   }"

text \<open>The six bytes of the local \<open>rb_frame_header_t hdr\<close>, before the peek fills them.\<close>

definition hdr_local :: "byte list" where
  "hdr_local = replicate RB_FRAME_HEADER_SIZE 0"

definition drop_oldest :: "ring_buffer \<Rightarrow> (nat \<times> ring_buffer) option" where
  "drop_oldest rb =
     (if rused rb < RB_FRAME_HEADER_SIZE then Some (0, rb)
      else do {
        h \<leftarrow> ring_peek rb hdr_local RB_FRAME_HEADER_SIZE;
        let hdr = hdr_of_bytes h;
        let frame_size = sz_add RB_FRAME_HEADER_SIZE (unat (hdr_len hdr));
        (if rused rb < frame_size then Some (0, rb)
         else do {
           t \<leftarrow> sz_mod (sz_add (rtail rb) frame_size) (rcap rb);
           Some (frame_size,
             rb\<lparr>rtail := t, rused := sz_sub (rused rb) frame_size,
                rdropped_messages := rdropped_messages rb + 1,
                rdropped_bytes := rdropped_bytes rb + ucast (hdr_len hdr)\<rparr>)
         })
      })"

subsection \<open>Public API\<close>

text \<open>
  \<open>malloc\<close> and \<open>pthread_mutex_init\<close> are arguments: \<open>mal n\<close> is the block that
  \<open>malloc(n)\<close> returns (\<open>None\<close> for \<open>NULL\<close>), \<open>mutex_rc\<close> the mutex call's result.
  Every function takes the pointer \<open>rb\<close> and returns, with its own result, the object
  behind it.
\<close>

definition rb_init :: "(nat \<Rightarrow> byte list ptr) \<Rightarrow> int \<Rightarrow> ring_buffer ptr \<Rightarrow> nat \<Rightarrow> int \<times> ring_buffer ptr" where
  "rb_init mal mutex_rc p capacity_bytes =
     (case p of None \<Rightarrow> (-1, p)
      | Some rb \<Rightarrow>
        if capacity_bytes < sz_add RB_FRAME_HEADER_SIZE 1 then (-1, p)
        else
          (let rb1 = rb\<lparr>rbuf := mal capacity_bytes\<rparr>
           in case rbuf rb1 of
                None \<Rightarrow> (-1, Some rb1)
              | Some _ \<Rightarrow>
                let rb2 = rb1\<lparr>rcap := capacity_bytes, rhead := 0, rtail := 0, rused := 0,
                              rdropped_messages := 0, rdropped_bytes := 0\<rparr>
                in if mutex_rc \<noteq> 0 then (-1, Some (rb2\<lparr>rbuf := None\<rparr>))
                   else (0, Some (rb2\<lparr>rlock := Mutex_free\<rparr>))))"

text \<open>Destroying a held or missing mutex is undefined.\<close>

definition rb_deinit :: "ring_buffer ptr \<Rightarrow> ring_buffer ptr option" where
  "rb_deinit p =
     (case p of None \<Rightarrow> Some p
      | Some rb \<Rightarrow>
        if rlock rb \<noteq> Mutex_free then None
        else Some (Some (rb\<lparr>rlock := Mutex_none, rbuf := None, rcap := 0, rhead := 0,
                            rtail := 0, rused := 0\<rparr>)))"

definition rb_reset :: "ring_buffer ptr \<Rightarrow> ring_buffer ptr option" where
  "rb_reset p =
     (case p of None \<Rightarrow> Some p
      | Some rb \<Rightarrow> do {
          rb1 \<leftarrow> rb_mutex_lock rb;
          let rb2 = rb1\<lparr>rhead := 0, rtail := 0, rused := 0, rdropped_messages := 0,
                        rdropped_bytes := 0\<rparr>;
          rb3 \<leftarrow> rb_mutex_unlock rb2;
          Some (Some rb3)
        })"

text \<open>
  The two eviction loops of \<open>rb_push\<close>. The first,
  \<open>while (rb->used > 0) drop_oldest(rb)\<close>, has no guard: on a ring whose bytes are not
  well-formed frames it never ends, so the loops are partial functions.
\<close>

partial_function (option) evict_all :: "ring_buffer \<Rightarrow> ring_buffer option" where
  "evict_all rb =
     (if 0 < rused rb
      then Option.bind (drop_oldest rb) (\<lambda>r. evict_all (snd r))
      else Some rb)"

partial_function (option) evict_until :: "nat \<Rightarrow> nat \<Rightarrow> ring_buffer \<Rightarrow> ring_buffer option" where
  "evict_until frame_size free_space rb =
     (if free_space < frame_size
      then Option.bind (drop_oldest rb)
        (\<lambda>r. if fst r = 0 then Some (snd r)
             else evict_until frame_size (sz_sub (rcap (snd r)) (rused (snd r))) (snd r))
      else Some rb)"

definition rb_push :: "ring_buffer ptr \<Rightarrow> byte \<Rightarrow> byte \<Rightarrow> byte list ptr \<Rightarrow> u32 \<Rightarrow>
    (int \<times> ring_buffer ptr) option" where
  "rb_push p kind flags data len =
     (case p of None \<Rightarrow> Some (-1, p)
      | Some rb \<Rightarrow>
        if rbuf rb = None then Some (-1, p)
        else
          (let frame_size = sz_add RB_FRAME_HEADER_SIZE (unat len) in
           if rcap rb < frame_size then do {
             let max_payload = (word_of_nat (sz_sub (rcap rb) RB_FRAME_HEADER_SIZE) :: u32);
             let flags' = flags OR RB_FLAG_TRUNCATED;
             rb1 \<leftarrow> rb_mutex_lock rb;
             rb2 \<leftarrow> evict_all rb1;
             let hdr = \<lparr>hdr_kind = kind, hdr_flags = flags', hdr_len = max_payload\<rparr>;
             rb3 \<leftarrow> ring_write rb2 (hdr_bytes hdr) RB_FRAME_HEADER_SIZE;
             rb4 \<leftarrow> ring_write rb3 (block_of data) (unat max_payload);
             rb5 \<leftarrow> rb_mutex_unlock rb4;
             Some (0, Some rb5)
           }
           else do {
             rb1 \<leftarrow> rb_mutex_lock rb;
             let free_space = sz_sub (rcap rb1) (rused rb1);
             rb2 \<leftarrow> evict_until frame_size free_space rb1;
             let hdr = \<lparr>hdr_kind = kind, hdr_flags = flags, hdr_len = len\<rparr>;
             rb3 \<leftarrow> ring_write rb2 (hdr_bytes hdr) RB_FRAME_HEADER_SIZE;
             rb4 \<leftarrow> ring_write rb3 (block_of data) (unat len);
             rb5 \<leftarrow> rb_mutex_unlock rb4;
             Some (0, Some rb5)
           }))"

definition rb_has_data :: "ring_buffer ptr \<Rightarrow> (bool \<times> ring_buffer ptr) option" where
  "rb_has_data p =
     (case p of None \<Rightarrow> Some (False, p)
      | Some rb \<Rightarrow> do {
          rb1 \<leftarrow> rb_mutex_lock rb;
          let has = (RB_FRAME_HEADER_SIZE \<le> rused rb1);
          rb2 \<leftarrow> rb_mutex_unlock rb1;
          Some (has, Some rb2)
        })"

text \<open>
  The out-parameters of \<open>rb_pop\<close>: \<open>*kind\<close>, \<open>*flags\<close> and \<open>*out_len\<close> are
  written only on the paths that deliver a message, the block \<open>out\<close> is the caller's.
\<close>

record pop_out =
  pop_kind :: "byte option"
  pop_flags :: "byte option"
  pop_len :: "u32 option"
  pop_buf :: "byte list"

definition pop_none :: "byte list \<Rightarrow> pop_out" where
  "pop_none out = \<lparr>pop_kind = None, pop_flags = None, pop_len = None, pop_buf = out\<rparr>"

definition rb_pop :: "ring_buffer ptr \<Rightarrow> byte list \<Rightarrow> u32 \<Rightarrow> (int \<times> pop_out \<times> ring_buffer ptr) option" where
  "rb_pop p out out_cap =
     (case p of None \<Rightarrow> Some (RB_ERROR, pop_none out, p)
      | Some rb \<Rightarrow>
        if rbuf rb = None then Some (RB_ERROR, pop_none out, p)
        else do {
          rb1 \<leftarrow> rb_mutex_lock rb;
          (if rused rb1 < RB_FRAME_HEADER_SIZE then do {
             rb2 \<leftarrow> rb_mutex_unlock rb1;
             Some (RB_EMPTY, pop_none out, Some rb2)
           }
           else do {
             h \<leftarrow> ring_peek rb1 hdr_local RB_FRAME_HEADER_SIZE;
             let hdr = hdr_of_bytes h;
             (if rused rb1 < sz_add RB_FRAME_HEADER_SIZE (unat (hdr_len hdr)) then do {
                rb2 \<leftarrow> rb_mutex_unlock rb1;
                Some (RB_ERROR, pop_none out, Some rb2)
              }
              else do {
                t \<leftarrow> sz_mod (sz_add (rtail rb1) RB_FRAME_HEADER_SIZE) (rcap rb1);
                let rb2 = rb1\<lparr>rtail := t, rused := sz_sub (rused rb1) RB_FRAME_HEADER_SIZE\<rparr>;
                (if hdr_len hdr \<le> out_cap then do {
                   (out', rb3) \<leftarrow> ring_read rb2 out (unat (hdr_len hdr));
                   rb4 \<leftarrow> rb_mutex_unlock rb3;
                   Some (RB_OK, \<lparr>pop_kind = Some (hdr_kind hdr), pop_flags = Some (hdr_flags hdr),
                           pop_len = Some (hdr_len hdr), pop_buf = out'\<rparr>, Some rb4)
                 }
                 else do {
                   (out', rb3) \<leftarrow> ring_read rb2 out (unat out_cap);
                   let remaining = unat (hdr_len hdr - out_cap);
                   t' \<leftarrow> sz_mod (sz_add (rtail rb3) remaining) (rcap rb3);
                   let rb4 = rb3\<lparr>rtail := t', rused := sz_sub (rused rb3) remaining\<rparr>;
                   rb5 \<leftarrow> rb_mutex_unlock rb4;
                   Some (RB_TRUNCATED_COPY, \<lparr>pop_kind = Some (hdr_kind hdr), pop_flags = Some (hdr_flags hdr),
                           pop_len = Some out_cap, pop_buf = out'\<rparr>, Some rb5)
                 })
              })
           })
        })"

definition rb_dropped_messages :: "ring_buffer ptr \<Rightarrow> (u64 \<times> ring_buffer ptr) option" where
  "rb_dropped_messages p =
     (case p of None \<Rightarrow> Some (0, p)
      | Some rb \<Rightarrow> do {
          rb1 \<leftarrow> rb_mutex_lock rb;
          let val = rdropped_messages rb1;
          rb2 \<leftarrow> rb_mutex_unlock rb1;
          Some (val, Some rb2)
        })"

definition rb_dropped_bytes :: "ring_buffer ptr \<Rightarrow> (u64 \<times> ring_buffer ptr) option" where
  "rb_dropped_bytes p =
     (case p of None \<Rightarrow> Some (0, p)
      | Some rb \<Rightarrow> do {
          rb1 \<leftarrow> rb_mutex_lock rb;
          let val = rdropped_bytes rb1;
          rb2 \<leftarrow> rb_mutex_unlock rb1;
          Some (val, Some rb2)
        })"

end
