(* ===== verification/Ring_Spec.thy ===== *)
theory Ring_Spec
  imports Ring_Buffer
begin

section \<open>What the ring buffer promises\<close>

text \<open>
  The abstract specification: a queue of messages with a byte budget and the drop-oldest
  policy, and the interface \<open>message_queue\<close> that the bridge relies on. The lemmas of the
  interface are about runs of operations and are proved once, from the laws alone.
\<close>

datatype msg = Msg (mkind: byte) (mflags: byte) (mpayload: "byte list")

definition fsize :: "msg \<Rightarrow> nat" where
  "fsize m = RB_FRAME_HEADER_SIZE + length (mpayload m)"

definition queue_bytes :: "msg list \<Rightarrow> nat" where
  "queue_bytes q = sum_list (map fsize q)"

definition frame :: "msg \<Rightarrow> byte list" where
  "frame m = hdr_bytes \<lparr>hdr_kind = mkind m, hdr_flags = mflags m,
     hdr_len = word_of_nat (length (mpayload m))\<rparr> @ mpayload m"

text \<open>Drop oldest messages, as few as possible, until the rest fits in \<open>lim\<close> bytes.\<close>

fun make_room :: "nat \<Rightarrow> msg list \<Rightarrow> msg list" where
  "make_room lim [] = []"
| "make_room lim (m # q) = (if queue_bytes (m # q) \<le> lim then m # q else make_room lim q)"

definition truncated :: "nat \<Rightarrow> msg \<Rightarrow> msg" where
  "truncated cap m = Msg (mkind m) (mflags m OR RB_FLAG_TRUNCATED)
     (take (cap - RB_FRAME_HEADER_SIZE) (mpayload m))"

definition spec_push :: "nat \<Rightarrow> msg \<Rightarrow> msg list \<Rightarrow> msg list" where
  "spec_push cap m q =
     (if fsize m \<le> cap then make_room (cap - fsize m) q @ [m] else [truncated cap m])"

text \<open>The message that a push leaves in the queue.\<close>

definition stored :: "nat \<Rightarrow> msg \<Rightarrow> msg" where
  "stored cap m = (if fsize m \<le> cap then m else truncated cap m)"

text \<open>The messages that a push evicts.\<close>

definition evicted :: "nat \<Rightarrow> msg \<Rightarrow> msg list \<Rightarrow> msg list" where
  "evicted cap m q =
     (if fsize m \<le> cap then take (length q - length (make_room (cap - fsize m) q)) q else q)"

subsection \<open>Laws of the specification\<close>

lemma queue_bytes_simps [simp]:
  "queue_bytes [] = 0" "queue_bytes (m # q) = fsize m + queue_bytes q" "queue_bytes (q @ r) = queue_bytes q + queue_bytes r"
  by (simp_all add: queue_bytes_def)

lemma make_room_suffix: "suffix (make_room lim q) q"
  by (induction q) (auto simp: suffix_ConsI)

lemma make_room_bytes: "queue_bytes (make_room lim q) \<le> lim"
  by (induction q) auto

lemma make_room_id: "queue_bytes q \<le> lim \<Longrightarrow> make_room lim q = q"
  by (cases q) auto

text \<open>No shorter eviction would do: one message more does not fit.\<close>

lemma make_room_minimal:
  "q = pre @ m # make_room lim q \<Longrightarrow> lim < fsize m + queue_bytes (make_room lim q)"
proof (induction q arbitrary: pre)
  case Nil
  then show ?case by simp
next
  case (Cons x q)
  show ?case
  proof (cases "queue_bytes (x # q) \<le> lim")
    case True
    with Cons.prems have "x # q = pre @ m # x # q" by simp
    then have "length (x # q) = length (pre @ m # x # q)" by (rule arg_cong)
    then show ?thesis by simp
  next
    case False
    then have eq: "make_room lim (x # q) = make_room lim q" by simp
    show ?thesis
    proof (cases pre)
      case Nil
      with Cons.prems eq have "x = m" and "q = make_room lim q" by auto
      with False eq show ?thesis by (metis queue_bytes_simps(2) leI)
    next
      case (Cons y pre')
      with Cons.prems False have "q = pre' @ m # make_room lim q" by auto
      then show ?thesis using Cons.IH eq by simp
    qed
  qed
qed

lemma spec_push_last: "spec_push cap m q \<noteq> [] \<and> last (spec_push cap m q) = stored cap m"
  by (simp add: spec_push_def stored_def)

lemma spec_push_bytes:
  assumes "RB_FRAME_HEADER_SIZE \<le> cap"
  shows "queue_bytes (spec_push cap m q) \<le> cap"
proof (cases "fsize m \<le> cap")
  case True
  with make_room_bytes [of "cap - fsize m" q] show ?thesis by (simp add: spec_push_def)
next
  case False
  with assms show ?thesis by (simp add: spec_push_def truncated_def fsize_def)
qed

lemma spec_push_suffix: "suffix (spec_push cap m q) (q @ [stored cap m])"
proof (cases "fsize m \<le> cap")
  case True
  with make_room_suffix [of "cap - fsize m" q] show ?thesis
    by (auto simp: spec_push_def stored_def suffix_def)
next
  case False
  then show ?thesis by (auto simp: spec_push_def stored_def suffix_def)
qed

lemma spec_push_evicted: "evicted cap m q @ spec_push cap m q = q @ [stored cap m]"
proof (cases "fsize m \<le> cap")
  case True
  obtain pre where "q = pre @ make_room (cap - fsize m) q"
    using make_room_suffix by (auto simp: suffix_def)
  then have "take (length q - length (make_room (cap - fsize m) q)) q @ make_room (cap - fsize m) q = q"
    by (metis append_eq_conv_conj length_append add_diff_cancel_right')
  with True show ?thesis by (simp add: spec_push_def stored_def evicted_def)
next
  case False
  then show ?thesis by (simp add: spec_push_def stored_def evicted_def)
qed

lemma spec_push_fits: "queue_bytes q + fsize m \<le> cap \<Longrightarrow> spec_push cap m q = q @ [m]"
  by (simp add: spec_push_def make_room_id)

subsection \<open>The interface the bridge uses\<close>

text \<open>
  \<open>put q m\<close> is a push, \<open>take_out q\<close> a pop into a buffer that is large enough,
  \<open>clear q\<close> a reset; \<open>None\<close> is a call that does not return. \<open>msgs q\<close> are the
  messages in the queue, oldest first, and \<open>room q\<close> its byte budget.
\<close>

locale message_queue =
  fixes put :: "'q \<Rightarrow> msg \<Rightarrow> 'q option"
    and take_out :: "'q \<Rightarrow> (msg option \<times> 'q) option"
    and clear :: "'q \<Rightarrow> 'q option"
    and msgs :: "'q \<Rightarrow> msg list"
    and room :: "'q \<Rightarrow> nat"
    and inv :: "'q \<Rightarrow> bool"
  assumes put_law: "inv q \<Longrightarrow> length (mpayload m) < 2 ^ 32 \<Longrightarrow>
      \<exists>q'. put q m = Some q' \<and> inv q' \<and> room q' = room q \<and> msgs q' = spec_push (room q) m (msgs q)"
    and take_law: "inv q \<Longrightarrow>
      \<exists>q'. take_out q = Some (case msgs q of [] \<Rightarrow> None | m # _ \<Rightarrow> Some m, q') \<and>
        inv q' \<and> room q' = room q \<and> msgs q' = tl (msgs q)"
    and clear_law: "inv q \<Longrightarrow> \<exists>q'. clear q = Some q' \<and> inv q' \<and> room q' = room q \<and> msgs q' = []"
    and room_law: "inv q \<Longrightarrow> RB_FRAME_HEADER_SIZE < room q"
begin

text \<open>A run of pushes, oldest first.\<close>

fun put_all :: "'q \<Rightarrow> msg list \<Rightarrow> 'q option" where
  "put_all q [] = Some q"
| "put_all q (m # ms) = Option.bind (put q m) (\<lambda>q'. put_all q' ms)"

lemma put_all_law:
  "inv q \<Longrightarrow> \<forall>m \<in> set ms. length (mpayload m) < 2 ^ 32 \<Longrightarrow>
   \<exists>q'. put_all q ms = Some q' \<and> inv q' \<and> room q' = room q \<and>
     msgs q' = fold (spec_push (room q)) ms (msgs q)"
proof (induction ms arbitrary: q)
  case Nil
  then show ?case by simp
next
  case (Cons m ms)
  from Cons.prems obtain q1 where q1: "put q m = Some q1" "inv q1" "room q1 = room q"
    "msgs q1 = spec_push (room q) m (msgs q)"
    using put_law [of q m] by auto
  with Cons.prems Cons.IH [of q1] show ?case by auto
qed

text \<open>Everything that fits together is kept, in order.\<close>

lemma put_all_fits:
  assumes "inv q" "queue_bytes (msgs q) + queue_bytes ms \<le> room q" "\<forall>m \<in> set ms. length (mpayload m) < 2 ^ 32"
  shows "\<exists>q'. put_all q ms = Some q' \<and> inv q' \<and> msgs q' = msgs q @ ms"
proof -
  have "queue_bytes xs + queue_bytes ms \<le> c \<Longrightarrow> fold (spec_push c) ms xs = xs @ ms" for xs c
    by (induction ms arbitrary: xs) (auto simp: spec_push_fits)
  with assms put_all_law [OF assms(1,3)] show ?thesis by fastforce
qed

text \<open>The newest message always survives, whatever was there before.\<close>

lemma put_all_newest:
  assumes "inv q" "\<forall>m \<in> set (ms @ [m]). length (mpayload m) < 2 ^ 32"
  shows "\<exists>q'. put_all q (ms @ [m]) = Some q' \<and> inv q' \<and> msgs q' \<noteq> [] \<and>
    last (msgs q') = stored (room q) m"
  using put_all_law [OF assms] spec_push_last by auto

text \<open>Draining: pop until empty.\<close>

fun drain :: "nat \<Rightarrow> 'q \<Rightarrow> (msg list \<times> 'q) option" where
  "drain 0 q = Some ([], q)"
| "drain (Suc n) q = Option.bind (take_out q)
     (\<lambda>(r, q'). case r of None \<Rightarrow> Some ([], q')
       | Some m \<Rightarrow> map_option (\<lambda>(ms, q''). (m # ms, q'')) (drain n q'))"

lemma drain_law:
  "inv q \<Longrightarrow> length (msgs q) \<le> n \<Longrightarrow>
   \<exists>q'. drain n q = Some (msgs q, q') \<and> inv q' \<and> room q' = room q \<and> msgs q' = []"
proof (induction n arbitrary: q)
  case 0
  then show ?case by simp
next
  case (Suc n)
  obtain q1 where q1: "take_out q = Some (case msgs q of [] \<Rightarrow> None | m # _ \<Rightarrow> Some m, q1)"
    "inv q1" "room q1 = room q" "msgs q1 = tl (msgs q)"
    using take_law Suc.prems(1) by blast
  show ?case
  proof (cases "msgs q")
    case Nil
    with q1 show ?thesis by simp
  next
    case (Cons m ms)
    with q1 Suc.prems have "length (msgs q1) \<le> n" by simp
    with Suc.IH [of q1] q1 Cons show ?thesis by fastforce
  qed
qed

text \<open>What goes in comes out, in order, once.\<close>

lemma fifo:
  assumes "inv q" "msgs q = []" "queue_bytes ms \<le> room q" "\<forall>m \<in> set ms. length (mpayload m) < 2 ^ 32"
  shows "\<exists>q1 q2. put_all q ms = Some q1 \<and> drain (length ms) q1 = Some (ms, q2) \<and> msgs q2 = []"
proof -
  from assms obtain q1 where q1: "put_all q ms = Some q1" "inv q1" "msgs q1 = ms"
    using put_all_fits [of q ms] by auto
  with drain_law [of q1 "length ms"] show ?thesis by auto
qed

end

end
