(* ===== verification/Ring_Refine.thy ===== *)
theory Ring_Refine
  imports Ring_Spec
begin

section \<open>The ring buffer implements its specification\<close>

text \<open>
  The representation invariant \<open>rb_ok\<close>, the abstraction \<open>rb_msgs\<close>, and for every
  operation of \<open>ring_buffer.c\<close> a lemma that it returns (no out-of-bounds copy, no
  endless eviction, the mutex released) and commutes with the abstraction.
\<close>

subsection \<open>The bytes in the ring\<close>

definition ring_bytes :: "byte list \<Rightarrow> nat \<Rightarrow> nat \<Rightarrow> byte list" where
  "ring_bytes b t u = take u (drop t b @ take t b)"

definition rb_geom :: "ring_buffer \<Rightarrow> bool" where
  "rb_geom rb = (case rbuf rb of None \<Rightarrow> False
     | Some b \<Rightarrow> length b = rcap rb \<and> RB_FRAME_HEADER_SIZE < rcap rb \<and> rcap rb < 2 ^ 63 \<and>
        rtail rb < rcap rb \<and> rused rb \<le> rcap rb \<and> rhead rb = (rtail rb + rused rb) mod rcap rb)"

definition rb_content :: "ring_buffer \<Rightarrow> byte list" where
  "rb_content rb = ring_bytes (block_of (rbuf rb)) (rtail rb) (rused rb)"

lemma rb_geomE:
  assumes "rb_geom rb"
  obtains b where "rbuf rb = Some b" "length b = rcap rb" "RB_FRAME_HEADER_SIZE < rcap rb"
    "rcap rb < 2 ^ 63" "rtail rb < rcap rb" "rused rb \<le> rcap rb"
    "rhead rb = (rtail rb + rused rb) mod rcap rb"
  using assms by (auto simp: rb_geom_def split: option.splits)

lemma length_ring_bytes [simp]: "u \<le> length b \<Longrightarrow> t \<le> length b \<Longrightarrow> length (ring_bytes b t u) = u"
  by (simp add: ring_bytes_def)

lemma ring_bytes_nth:
  assumes "t < length b" "u \<le> length b" "i < u"
  shows "ring_bytes b t u ! i = b ! ((t + i) mod length b)"
proof (cases "t + i < length b")
  case True
  with assms show ?thesis by (auto simp: ring_bytes_def nth_append)
next
  case False
  with assms have "(t + i) mod length b = t + i - length b" by (simp add: mod_wrap)
  with False assms show ?thesis
    by (auto simp: ring_bytes_def nth_append add.commute)
qed

text \<open>The copy out of the ring, in one piece or in two.\<close>

lemma ring_bytes_take:
  assumes "t < length b" "n \<le> length b"
  shows "n \<le> length b - t \<Longrightarrow> take n (drop t b) = ring_bytes b t n"
    and "\<not> n \<le> length b - t \<Longrightarrow> drop t b @ take (n - (length b - t)) b = ring_bytes b t n"
  using assms by (auto simp: ring_bytes_def min_def)

lemma ring_bytes_prefix: "n \<le> u \<Longrightarrow> take n (ring_bytes b t u) = ring_bytes b t n"
  by (simp add: ring_bytes_def min_def)

lemma ring_bytes_advance:
  assumes "t < length b" "u \<le> length b" "n \<le> u"
  shows "ring_bytes b ((t + n) mod length b) (u - n) = drop n (ring_bytes b t u)"
proof (rule nth_equalityI)
  have lt: "(t + n) mod length b < length b" using assms(1) by (intro mod_less_divisor) linarith
  show "length (ring_bytes b ((t + n) mod length b) (u - n)) = length (drop n (ring_bytes b t u))"
    using assms lt by simp
  fix i assume "i < length (ring_bytes b ((t + n) mod length b) (u - n))"
  with assms lt have i: "i < u - n" by simp
  have "ring_bytes b ((t + n) mod length b) (u - n) ! i = b ! (((t + n) mod length b + i) mod length b)"
    using ring_bytes_nth [OF lt, of "u - n" i] assms i by simp
  also have "\<dots> = b ! ((t + (n + i)) mod length b)"
    by (simp add: mod_add_left_eq add.assoc)
  also have "\<dots> = drop n (ring_bytes b t u) ! i"
    using ring_bytes_nth [OF assms(1,2), of "n + i"] assms i by simp
  finally show "ring_bytes b ((t + n) mod length b) (u - n) ! i = drop n (ring_bytes b t u) ! i" .
qed

text \<open>The copy into the ring at the head, in one piece or in two.\<close>

definition ring_put :: "byte list \<Rightarrow> nat \<Rightarrow> byte list \<Rightarrow> byte list" where
  "ring_put b h s =
     (if length s \<le> length b - h then take h b @ s @ drop (h + length s) b
      else drop (length b - h) s @ drop (length s - (length b - h)) (take h b) @ take (length b - h) s)"

lemma length_ring_put [simp]: "h < length b \<Longrightarrow> length s \<le> length b \<Longrightarrow> length (ring_put b h s) = length b"
  by (auto simp: ring_put_def)

lemma ring_put_nth:
  assumes "h < length b" "length s \<le> length b" "j < length b"
  shows "ring_put b h s ! j =
    (if h \<le> j \<and> j < h + length s then s ! (j - h)
     else if j + length b < h + length s then s ! (j + length b - h) else b ! j)"
proof (cases "length s \<le> length b - h")
  case True
  with assms show ?thesis by (auto simp: ring_put_def nth_append)
next
  case False
  with assms show ?thesis by (auto simp: ring_put_def nth_append add.commute)
qed

lemma ring_bytes_put:
  assumes "t < length b" "u + length s \<le> length b" "h = (t + u) mod length b"
  shows "ring_bytes (ring_put b h s) t (u + length s) = ring_bytes b t u @ s"
proof (rule nth_equalityI)
  have h: "h < length b" unfolding assms(3) using assms(1) by (intro mod_less_divisor) linarith
  have hc: "h = (if t + u < length b then t + u else t + u - length b)"
    using assms by (simp add: mod_wrap)
  have len: "length (ring_put b h s) = length b" using assms h by simp
  show "length (ring_bytes (ring_put b h s) t (u + length s)) = length (ring_bytes b t u @ s)"
    using assms len by simp
  fix i assume "i < length (ring_bytes (ring_put b h s) t (u + length s))"
  with assms len have i: "i < u + length s" by simp
  let ?j = "(t + i) mod length b"
  have jc: "?j = (if t + i < length b then t + i else t + i - length b)"
    using assms i by (simp add: mod_wrap)
  have j: "?j < length b" using assms(1) by (intro mod_less_divisor) linarith
  have "ring_bytes (ring_put b h s) t (u + length s) ! i = ring_put b h s ! ?j"
    using ring_bytes_nth [of t "ring_put b h s" "u + length s" i] assms i len by simp
  also have "\<dots> = (if i < u then b ! ?j else s ! (i - u))"
    using ring_put_nth [OF h _ j, of s] assms(1,2) i
    by (cases "i < u"; cases "t + u < length b"; cases "t + i < length b") (auto simp: hc jc)
  also have "\<dots> = (ring_bytes b t u @ s) ! i"
    using ring_bytes_nth [of t b u i] assms i by (auto simp: nth_append)
  finally show "ring_bytes (ring_put b h s) t (u + length s) ! i = (ring_bytes b t u @ s) ! i" .
qed

subsection \<open>Framing\<close>

lemma len_bytes_roundtrip:
  fixes l :: u32
  shows "ucast (ucast l :: byte) OR push_bit 8 (ucast (ucast (drop_bit 8 l) :: byte))
    OR push_bit 16 (ucast (ucast (drop_bit 16 l) :: byte))
    OR push_bit 24 (ucast (ucast (drop_bit 24 l) :: byte)) = l"
proof (rule bit_word_eqI)
  fix n assume "n < LENGTH(32)"
  then have "n < 8 \<or> 8 \<le> n \<and> n < 16 \<or> 16 \<le> n \<and> n < 24 \<or> 24 \<le> n \<and> n < 32" by auto
  then show "bit (ucast (ucast l :: byte) OR push_bit 8 (ucast (ucast (drop_bit 8 l) :: byte))
    OR push_bit 16 (ucast (ucast (drop_bit 16 l) :: byte))
    OR push_bit 24 (ucast (ucast (drop_bit 24 l) :: byte)) :: u32) n = bit l n"
    by (elim disjE) (auto simp: bit_or_iff bit_push_bit_iff bit_ucast_iff bit_drop_bit_eq)
qed

lemma hdr_roundtrip [simp]: "hdr_of_bytes (hdr_bytes h) = h"
  using len_bytes_roundtrip [of "hdr_len h"] by (simp add: hdr_of_bytes_def hdr_bytes_def)

lemma length_hdr_bytes [simp]: "length (hdr_bytes h) = RB_FRAME_HEADER_SIZE"
  by (simp add: hdr_bytes_def RB_FRAME_HEADER_SIZE_def)

lemma length_hdr_local [simp]: "length hdr_local = RB_FRAME_HEADER_SIZE"
  by (simp add: hdr_local_def)

lemma length_frame [simp]: "length (frame m) = fsize m"
  by (simp add: frame_def fsize_def)

lemma length_frames [simp]: "length (concat (map frame q)) = queue_bytes q"
  by (induction q) auto

definition msg_ok :: "msg \<Rightarrow> bool" where
  "msg_ok m \<longleftrightarrow> length (mpayload m) < 2 ^ 32"

definition hdr_of :: "msg \<Rightarrow> rb_frame_header" where
  "hdr_of m = \<lparr>hdr_kind = mkind m, hdr_flags = mflags m, hdr_len = word_of_nat (length (mpayload m))\<rparr>"

lemma frame_header [simp]: "take RB_FRAME_HEADER_SIZE (frame m @ rest) = hdr_bytes (hdr_of m)"
  by (simp add: frame_def hdr_of_def)

lemma frame_payload [simp]: "drop RB_FRAME_HEADER_SIZE (frame m @ rest) = mpayload m @ rest"
  by (simp add: frame_def)

lemma hdr_of_simps [simp]:
  "hdr_kind (hdr_of m) = mkind m" "hdr_flags (hdr_of m) = mflags m"
  "msg_ok m \<Longrightarrow> unat (hdr_len (hdr_of m)) = length (mpayload m)"
  by (simp_all add: hdr_of_def msg_ok_def unat_of_nat take_bit_eq_mod)

lemma header_size_pos [simp]: "0 < RB_FRAME_HEADER_SIZE"
  by (simp add: RB_FRAME_HEADER_SIZE_def)

lemma fsize_ge [simp]: "RB_FRAME_HEADER_SIZE \<le> fsize m"
  by (simp add: fsize_def)

function frames_of :: "byte list \<Rightarrow> msg list" where
  "frames_of bs =
     (if length bs < RB_FRAME_HEADER_SIZE then []
      else let h = hdr_of_bytes (take RB_FRAME_HEADER_SIZE bs);
               rest = drop RB_FRAME_HEADER_SIZE bs;
               n = unat (hdr_len h)
           in Msg (hdr_kind h) (hdr_flags h) (take n rest) # frames_of (drop n rest))"
  by pat_completeness auto
termination
  by (relation "measure length") (auto simp: RB_FRAME_HEADER_SIZE_def)

declare frames_of.simps [simp del]

text \<open>The framing is unambiguous: the bytes of a list of messages determine the list.\<close>

lemma frames_of_frame: "msg_ok m \<Longrightarrow> frames_of (frame m @ rest) = m # frames_of rest"
proof -
  assume "msg_ok m"
  then have "frames_of (frame m @ rest)
      = Msg (mkind m) (mflags m) (take (length (mpayload m)) (mpayload m @ rest))
        # frames_of (drop (length (mpayload m)) (mpayload m @ rest))"
    by (subst frames_of.simps)
      (simp add: Let_def not_less fsize_def del: take_append drop_append drop_drop)
  then show ?thesis by simp
qed

lemma frames_of_concat: "\<forall>m \<in> set q. msg_ok m \<Longrightarrow> frames_of (concat (map frame q)) = q"
proof (induction q)
  case Nil
  then show ?case by (subst frames_of.simps) simp
next
  case (Cons m q)
  then show ?case by (simp add: frames_of_frame)
qed

subsection \<open>Moving the ring's ends\<close>

definition advance :: "nat \<Rightarrow> ring_buffer \<Rightarrow> ring_buffer" where
  "advance n rb = rb\<lparr>rtail := (rtail rb + n) mod rcap rb, rused := rused rb - n\<rparr>"

lemma advance_geom: "rb_geom rb \<Longrightarrow> n \<le> rused rb \<Longrightarrow> rb_geom (advance n rb)"
proof -
  assume "rb_geom rb" and n: "n \<le> rused rb"
  moreover have "((rtail rb + n) mod rcap rb + (rused rb - n)) mod rcap rb = (rtail rb + n + (rused rb - n)) mod rcap rb"
    by (simp only: mod_add_left_eq)
  ultimately show ?thesis
    by (elim rb_geomE) (simp add: rb_geom_def advance_def)
qed

lemma advance_content: "rb_geom rb \<Longrightarrow> n \<le> rused rb \<Longrightarrow> rb_content (advance n rb) = drop n (rb_content rb)"
  by (erule rb_geomE) (simp add: rb_content_def advance_def flip: ring_bytes_advance)

lemma content_length [simp]: "rb_geom rb \<Longrightarrow> length (rb_content rb) = rused rb"
  by (erule rb_geomE) (simp add: rb_content_def)

text \<open>Lock state and counters do not touch the ring.\<close>

lemma geom_frame [simp]:
  "rb_geom (rb\<lparr>rlock := l\<rparr>) = rb_geom rb"
  "rb_geom (rb\<lparr>rdropped_messages := m\<rparr>) = rb_geom rb"
  "rb_geom (rb\<lparr>rdropped_bytes := k\<rparr>) = rb_geom rb"
  "rb_content (rb\<lparr>rlock := l\<rparr>) = rb_content rb"
  "rb_content (rb\<lparr>rdropped_messages := m\<rparr>) = rb_content rb"
  "rb_content (rb\<lparr>rdropped_bytes := k\<rparr>) = rb_content rb"
  by (simp_all add: rb_geom_def rb_content_def split: option.split)

lemma advance_fields [simp]:
  "rcap (advance n rb) = rcap rb" "rlock (advance n rb) = rlock rb" "rbuf (advance n rb) = rbuf rb"
  "rused (advance n rb) = rused rb - n" "rdropped_messages (advance n rb) = rdropped_messages rb"
  "rdropped_bytes (advance n rb) = rdropped_bytes rb"
  by (simp_all add: advance_def)

lemma advance_advance: "advance k (advance n rb) = advance (n + k) rb"
  by (simp add: advance_def mod_add_left_eq add.assoc)

text \<open>The two-piece copy that \<open>ring_peek\<close> and \<open>ring_read\<close> share.\<close>

lemma copy_out:
  assumes "rb_geom rb" "rbuf rb = Some b" "n \<le> rused rb" "n \<le> length d"
  shows "(if n \<le> sz_sub (rcap rb) (rtail rb) then memcpy d 0 b (rtail rb) n
      else do {
        d1 \<leftarrow> memcpy d 0 b (rtail rb) (sz_sub (rcap rb) (rtail rb));
        memcpy d1 (sz_sub (rcap rb) (rtail rb)) b 0 (sz_sub n (sz_sub (rcap rb) (rtail rb)))
      }) = Some (take n (rb_content rb) @ drop n d)"
proof -
  from assms(1,2) have g: "length b = rcap rb" "rcap rb < 2 ^ 64" "rtail rb < rcap rb" "rused rb \<le> rcap rb"
    by (auto elim!: rb_geomE)
  have first: "sz_sub (rcap rb) (rtail rb) = length b - rtail rb"
    using g by (simp add: c_simps)
  have c: "take n (rb_content rb) = ring_bytes b (rtail rb) n"
    using assms by (simp add: rb_content_def ring_bytes_prefix)
  show ?thesis
  proof (cases "n \<le> length b - rtail rb")
    case True
    with g assms first show ?thesis
      by (simp add: c_simps c ring_bytes_take(1))
  next
    case False
    with g assms have "sz_sub n (length b - rtail rb) = n - (length b - rtail rb)"
      by (simp add: c_simps)
    with False g assms first show ?thesis
      by (simp add: c_simps c flip: ring_bytes_take(2))
  qed
qed

lemma ring_peek_ok:
  assumes "rb_geom rb" "n \<le> rused rb" "n \<le> length d"
  shows "ring_peek rb d n = Some (take n (rb_content rb) @ drop n d)"
proof -
  from assms(1) obtain b where "rbuf rb = Some b" by (auto elim!: rb_geomE)
  with assms show ?thesis by (simp only: ring_peek_def copy_out Let_def Option.bind.simps)
qed

lemma ring_read_ok:
  assumes "rb_geom rb" "n \<le> rused rb" "n \<le> length d"
  shows "ring_read rb d n = Some (take n (rb_content rb) @ drop n d, advance n rb)"
proof -
  from assms(1) obtain b where b: "rbuf rb = Some b" "rcap rb < 2 ^ 63" "rtail rb < rcap rb" "rused rb \<le> rcap rb"
    by (auto elim!: rb_geomE)
  then have "sz_mod (sz_add (rtail rb) n) (rcap rb) = Some ((rtail rb + n) mod rcap rb)"
    and "sz_sub (rused rb) n = rused rb - n"
    using assms by (simp_all add: c_simps)
  then show ?thesis
    by (simp only: ring_read_def b(1) copy_out [OF assms(1) b(1) assms(2,3)] Let_def Option.bind.simps
        advance_def)
qed

lemma ring_write_ok:
  assumes "rb_geom rb" "rused rb + n \<le> rcap rb" "n \<le> length s"
  obtains rb' where "ring_write rb s n = Some rb'" "rb_geom rb'"
    "rb_content rb' = rb_content rb @ take n s" "rcap rb' = rcap rb" "rused rb' = rused rb + n"
    "rlock rb' = rlock rb" "rdropped_messages rb' = rdropped_messages rb"
    "rdropped_bytes rb' = rdropped_bytes rb"
proof -
  from assms(1) obtain b where b: "rbuf rb = Some b" "length b = rcap rb" "rcap rb < 2 ^ 63"
    "RB_FRAME_HEADER_SIZE < rcap rb" "rtail rb < rcap rb" "rhead rb = (rtail rb + rused rb) mod rcap rb"
    by (auto elim!: rb_geomE)
  have h: "rhead rb < length b" unfolding b using b(5) by (intro mod_less_divisor) linarith
  define s' where "s' = take n s"
  have s': "length s' = n" "take n s = s'" using assms(3) by (simp_all add: s'_def)
  have first: "sz_sub (rcap rb) (rhead rb) = length b - rhead rb" using b h by (simp add: c_simps)
  have put: "(if n \<le> length b - rhead rb then memcpy b (rhead rb) s 0 n
      else do { b1 \<leftarrow> memcpy b (rhead rb) s 0 (length b - rhead rb);
                memcpy b1 0 s (length b - rhead rb) (sz_sub n (length b - rhead rb)) })
    = Some (ring_put b (rhead rb) s')"
  proof (cases "n \<le> length b - rhead rb")
    case True
    with h assms s' show ?thesis by (simp add: c_simps ring_put_def)
  next
    case False
    then have "sz_sub n (length b - rhead rb) = n - (length b - rhead rb)"
      using b assms by (simp add: c_simps)
    moreover have "drop (length b - rhead rb) s' = take (n - (length b - rhead rb)) (drop (length b - rhead rb) s)"
      "take (length b - rhead rb) s' = take (length b - rhead rb) s"
      using False by (simp_all add: s'_def drop_take min_def)
    ultimately show ?thesis
      using False h assms(2,3) b(2) s'(1) by (simp add: memcpy_ok ring_put_def min_def)
  qed
  have "(rhead rb + n) mod rcap rb = (rtail rb + (rused rb + n)) mod rcap rb"
    unfolding b(6) by (simp only: mod_add_left_eq add.assoc)
  moreover have "rhead rb < 2 ^ 63" "n < 2 ^ 63" "rused rb < 2 ^ 63"
    using b(2,3,4) h assms(2) by linarith+
  then have "rhead rb + n < 2 ^ 64" "rused rb + n < 2 ^ 64" by simp_all
  ultimately have mods: "sz_mod (sz_add (rhead rb) n) (rcap rb) = Some ((rtail rb + (rused rb + n)) mod rcap rb)"
    "sz_add (rused rb) n = rused rb + n"
    using b by (simp_all add: c_simps del: power_numeral)
  define rb' where "rb' = rb\<lparr>rbuf := Some (ring_put b (rhead rb) s'),
    rhead := (rtail rb + (rused rb + n)) mod rcap rb, rused := rused rb + n\<rparr>"
  have "ring_write rb s n = Some rb'"
    by (simp only: ring_write_def b(1) Let_def first put mods Option.bind.simps rb'_def)
  moreover have "rb_geom rb'" using b h assms s' by (simp add: rb_geom_def rb'_def)
  moreover have "rb_content rb' = rb_content rb @ take n s"
    using ring_bytes_put [of "rtail rb" b "rused rb" s' "rhead rb"] b assms s'
    by (simp add: rb_content_def rb'_def)
  ultimately show thesis using that by (simp add: rb'_def)
qed

subsection \<open>Eviction\<close>

text \<open>\<open>dropping m rb\<close> is the ring after \<open>drop_oldest\<close> removed the message \<open>m\<close>.\<close>

definition dropping :: "msg \<Rightarrow> ring_buffer \<Rightarrow> ring_buffer" where
  "dropping m rb = (advance (fsize m) rb)
     \<lparr>rdropped_messages := rdropped_messages rb + 1,
      rdropped_bytes := rdropped_bytes rb + word_of_nat (length (mpayload m))\<rparr>"

lemma dropping_fields [simp]:
  "rcap (dropping m rb) = rcap rb" "rlock (dropping m rb) = rlock rb"
  "rused (dropping m rb) = rused rb - fsize m" "rbuf (dropping m rb) = rbuf rb"
  "rdropped_messages (dropping m rb) = rdropped_messages rb + 1"
  "rdropped_bytes (dropping m rb) = rdropped_bytes rb + word_of_nat (length (mpayload m))"
  by (simp_all add: dropping_def)

lemma drop_oldest_ok:
  assumes "rb_geom rb" "rb_content rb = frame m @ rest" "msg_ok m"
  shows "drop_oldest rb = Some (fsize m, dropping m rb)"
    and "rb_geom (dropping m rb)" "rb_content (dropping m rb) = rest"
proof -
  from assms have u: "rused rb = fsize m + length rest" by (metis content_length length_append length_frame)
  from assms(1) have g: "rcap rb < 2 ^ 63" "rtail rb < rcap rb" "rused rb \<le> rcap rb"
    by (auto elim!: rb_geomE)
  have le: "RB_FRAME_HEADER_SIZE \<le> rused rb" using u fsize_ge [of m] by linarith
  have fs: "sz_add RB_FRAME_HEADER_SIZE (unat (hdr_len (hdr_of m))) = fsize m"
    using assms(3) u g by (simp add: c_simps fsize_def)
  have peek: "ring_peek rb hdr_local RB_FRAME_HEADER_SIZE = Some (hdr_bytes (hdr_of m))"
    using ring_peek_ok [OF assms(1) le] by (simp add: assms(2) del: take_append)
  have len: "ucast (hdr_len (hdr_of m)) = (word_of_nat (length (mpayload m)) :: u64)"
    using hdr_of_simps(3) [OF assms(3)] by (metis of_nat_unat)
  have arith: "sz_mod (sz_add (rtail rb) (fsize m)) (rcap rb) = Some ((rtail rb + fsize m) mod rcap rb)"
    "sz_sub (rused rb) (fsize m) = rused rb - fsize m"
    using g u by (simp_all add: c_simps)
  show "drop_oldest rb = Some (fsize m, dropping m rb)"
    using le arith u by (simp add: drop_oldest_def peek fs Let_def len dropping_def advance_def)
  show "rb_geom (dropping m rb)" "rb_content (dropping m rb) = rest"
    using assms u by (simp_all add: dropping_def advance_geom advance_content)
qed

fun droppings :: "msg list \<Rightarrow> ring_buffer \<Rightarrow> ring_buffer" where
  "droppings [] rb = rb"
| "droppings (m # q) rb = droppings q (dropping m rb)"

text \<open>The payload bytes of a list of messages, as the 64-bit counter adds them.\<close>

definition payload_bytes :: "msg list \<Rightarrow> nat" where
  "payload_bytes q = sum_list (map (length \<circ> mpayload) q)"

lemma payload_bytes_simps [simp]:
  "payload_bytes [] = 0" "payload_bytes (m # q) = length (mpayload m) + payload_bytes q"
  by (simp_all add: payload_bytes_def)

lemma droppings_fields:
  "rcap (droppings q rb) = rcap rb" "rlock (droppings q rb) = rlock rb"
  "rdropped_messages (droppings q rb) = rdropped_messages rb + word_of_nat (length q)"
  "rdropped_bytes (droppings q rb) = rdropped_bytes rb + word_of_nat (payload_bytes q)"
  by (induction q arbitrary: rb) (simp_all add: algebra_simps)

lemma droppings_ok:
  "rb_geom rb \<Longrightarrow> rb_content rb = concat (map frame (q @ r)) \<Longrightarrow> \<forall>m \<in> set q. msg_ok m \<Longrightarrow>
   rb_geom (droppings q rb) \<and> rb_content (droppings q rb) = concat (map frame r)"
  by (induction q arbitrary: rb) (auto simp: drop_oldest_ok)

lemma evict_all_ok:
  "rb_geom rb \<Longrightarrow> rb_content rb = concat (map frame q) \<Longrightarrow> \<forall>m \<in> set q. msg_ok m \<Longrightarrow>
   evict_all rb = Some (droppings q rb)"
proof (induction q arbitrary: rb)
  case Nil
  then have "rused rb = 0" by (metis content_length list.size(3) concat.simps(1) list.simps(8))
  then show ?case by (subst evict_all.simps) simp
next
  case (Cons m q)
  then have c: "rb_content rb = frame m @ concat (map frame q)" and m: "msg_ok m" by simp_all
  then have "0 < rused rb"
    using Cons.prems(1) fsize_ge [of m] header_size_pos by (metis content_length length_append length_frame
        add_gr_0 less_le_trans)
  moreover from drop_oldest_ok [OF Cons.prems(1) c m] Cons
  have "evict_all (dropping m rb) = Some (droppings q (dropping m rb))" by simp
  ultimately show ?case
    using drop_oldest_ok(1) [OF Cons.prems(1) c m] by (subst evict_all.simps) simp
qed

lemma evict_until_ok:
  "rb_geom rb \<Longrightarrow> rb_content rb = concat (map frame q) \<Longrightarrow> \<forall>m \<in> set q. msg_ok m \<Longrightarrow>
   need \<le> rcap rb \<Longrightarrow>
   evict_until need (rcap rb - rused rb) rb
     = Some (droppings (take (length q - length (make_room (rcap rb - need) q)) q) rb)"
proof (induction q arbitrary: rb)
  case Nil
  then have "rused rb = 0" by (metis content_length list.size(3) concat.simps(1) list.simps(8))
  with Nil show ?case by (subst evict_until.simps) simp
next
  case (Cons m q)
  then have c: "rb_content rb = frame m @ concat (map frame q)" and m: "msg_ok m" by simp_all
  have u: "rused rb = queue_bytes (m # q)" using Cons.prems(1,2) by (metis content_length length_frames)
  have cap: "rused rb \<le> rcap rb" "rcap rb < 2 ^ 64" using Cons.prems(1) by (auto elim!: rb_geomE)
  note d = drop_oldest_ok [OF Cons.prems(1) c m]
  show ?case
  proof (cases "queue_bytes (m # q) \<le> rcap rb - need")
    case True
    with u cap Cons.prems(4) have "\<not> rcap rb - rused rb < need" by linarith
    with True show ?thesis by (subst evict_until.simps) simp
  next
    case False
    with u cap Cons.prems(4) have lt: "rcap rb - rused rb < need" by linarith
    have free: "sz_sub (rcap rb) (rused rb - fsize m) = rcap rb - (rused rb - fsize m)"
      using cap by (simp add: c_simps)
    have nz: "fsize m \<noteq> 0" using fsize_ge [of m] header_size_pos by linarith
    have "length (make_room (rcap rb - need) q) \<le> length q"
      using make_room_suffix by (rule suffix_length_le)
    then have len: "length (m # q) - length (make_room (rcap rb - need) q)
        = Suc (length q - length (make_room (rcap rb - need) q))" by simp
    show ?thesis
      using Cons.IH [of "dropping m rb"] d Cons.prems False len lt free nz
      by (subst evict_until.simps) simp
  qed
qed

subsection \<open>The abstraction and the invariant\<close>

definition rb_msgs :: "ring_buffer \<Rightarrow> msg list" where
  "rb_msgs rb = frames_of (rb_content rb)"

definition rb_framed :: "ring_buffer \<Rightarrow> bool" where
  "rb_framed rb \<longleftrightarrow> rb_geom rb \<and> rb_content rb = concat (map frame (rb_msgs rb)) \<and>
     (\<forall>m \<in> set (rb_msgs rb). msg_ok m)"

definition rb_ok :: "ring_buffer \<Rightarrow> bool" where
  "rb_ok rb \<longleftrightarrow> rb_framed rb \<and> rlock rb = Mutex_free"

lemma rb_framedI:
  assumes "rb_geom rb" "rb_content rb = concat (map frame q)" "\<forall>m \<in> set q. msg_ok m"
  shows "rb_framed rb" "rb_msgs rb = q"
  using assms by (simp_all add: rb_framed_def rb_msgs_def frames_of_concat)

lemma rb_framedD:
  assumes "rb_framed rb"
  shows "rb_geom rb" "rb_content rb = concat (map frame (rb_msgs rb))"
    "\<And>m. m \<in> set (rb_msgs rb) \<Longrightarrow> msg_ok m" "rused rb = queue_bytes (rb_msgs rb)"
proof -
  show g: "rb_geom rb" and c: "rb_content rb = concat (map frame (rb_msgs rb))"
    and "\<And>m. m \<in> set (rb_msgs rb) \<Longrightarrow> msg_ok m"
    using assms by (auto simp: rb_framed_def)
  show "rused rb = queue_bytes (rb_msgs rb)"
    using content_length [OF g] length_frames [of "rb_msgs rb"] c by simp
qed

lemma rb_framed_lock [simp]:
  "rb_framed (rb\<lparr>rlock := l\<rparr>) = rb_framed rb" "rb_msgs (rb\<lparr>rlock := l\<rparr>) = rb_msgs rb"
  by (simp_all add: rb_framed_def rb_msgs_def)

lemma rb_framed_empty_iff: "rb_framed rb \<Longrightarrow> (rused rb = 0) = (rb_msgs rb = [])"
  using rb_framedD(4) [of rb] header_size_pos by (cases "rb_msgs rb") (auto simp: fsize_def)

lemma msg_ok_suffix: "suffix r q \<Longrightarrow> \<forall>m \<in> set q. msg_ok m \<Longrightarrow> \<forall>m \<in> set r. msg_ok m"
  by (auto simp: suffix_def)

text \<open>The two writes of a push: header, then payload.\<close>

lemma write_frame:
  assumes "rb_framed rb" "queue_bytes (rb_msgs rb) + fsize m \<le> rcap rb" "msg_ok m"
    "n = length (mpayload m)" "take n s = mpayload m"
  obtains rb1 rb2 where "ring_write rb (hdr_bytes (hdr_of m)) RB_FRAME_HEADER_SIZE = Some rb1"
    "ring_write rb1 s n = Some rb2" "rb_framed rb2" "rb_msgs rb2 = rb_msgs rb @ [m]"
    "rcap rb2 = rcap rb" "rlock rb2 = rlock rb" "rdropped_messages rb2 = rdropped_messages rb"
    "rdropped_bytes rb2 = rdropped_bytes rb"
proof -
  note f = rb_framedD [OF assms(1)]
  have n: "n \<le> length s" using assms(4,5) by (metis length_take min.cobounded1)
  have h: "rused rb + RB_FRAME_HEADER_SIZE \<le> rcap rb" using assms(2) f(4) by (simp add: fsize_def)
  obtain rb1 where r1: "ring_write rb (hdr_bytes (hdr_of m)) RB_FRAME_HEADER_SIZE = Some rb1" "rb_geom rb1"
    "rb_content rb1 = rb_content rb @ hdr_bytes (hdr_of m)" "rcap rb1 = rcap rb"
    "rused rb1 = rused rb + RB_FRAME_HEADER_SIZE" "rlock rb1 = rlock rb"
    "rdropped_messages rb1 = rdropped_messages rb" "rdropped_bytes rb1 = rdropped_bytes rb"
    by (rule ring_write_ok [OF f(1) h, of "hdr_bytes (hdr_of m)"]) auto
  have p: "rused rb1 + n \<le> rcap rb1" using assms(2,4) f(4) r1 by (simp add: fsize_def)
  obtain rb2 where r2: "ring_write rb1 s n = Some rb2" "rb_geom rb2"
    "rb_content rb2 = rb_content rb1 @ take n s" "rcap rb2 = rcap rb1" "rlock rb2 = rlock rb1"
    "rdropped_messages rb2 = rdropped_messages rb1" "rdropped_bytes rb2 = rdropped_bytes rb1"
    by (rule ring_write_ok [OF r1(2) p n]) auto
  have "rb_content rb2 = concat (map frame (rb_msgs rb @ [m]))"
    using f(2) r1 r2 assms(5) by (simp add: frame_def hdr_of_def)
  moreover have "\<forall>x \<in> set (rb_msgs rb @ [m]). msg_ok x" using f(3) assms(3) by auto
  ultimately have "rb_framed rb2" "rb_msgs rb2 = rb_msgs rb @ [m]"
    using rb_framedI [OF r2(2)] by blast+
  with r1 r2 show thesis using that [of rb1 rb2] by simp
qed

text \<open>The ring after the eviction of a push, and before its writes.\<close>

lemma droppings_framed:
  assumes "rb_framed rb" "rb_msgs rb = gone @ kept"
  shows "rb_framed (droppings gone rb)" "rb_msgs (droppings gone rb) = kept"
proof -
  note f = rb_framedD [OF assms(1)]
  have "rb_geom (droppings gone rb) \<and> rb_content (droppings gone rb) = concat (map frame kept)"
    using droppings_ok [of rb gone kept] f assms(2) by auto
  then show "rb_framed (droppings gone rb)" "rb_msgs (droppings gone rb) = kept"
    using rb_framedI [of "droppings gone rb" kept] f(3) assms(2) by auto
qed

subsection \<open>Push\<close>

lemma rb_push_fits:
  fixes kind flags :: byte and payload :: "byte list"
  assumes "rb_ok rb" "length payload < 2 ^ 32" "RB_FRAME_HEADER_SIZE + length payload \<le> rcap rb"
    "take (length payload) (block_of data) = payload"
  defines "m \<equiv> Msg kind flags payload"
  obtains rb' where "rb_push (Some rb) kind flags data (word_of_nat (length payload)) = Some (0, Some rb')"
    "rb_ok rb'" "rb_msgs rb' = make_room (rcap rb - fsize m) (rb_msgs rb) @ [m]" "rcap rb' = rcap rb"
    "rdropped_messages rb' = rdropped_messages rb + word_of_nat (length (evicted (rcap rb) m (rb_msgs rb)))"
    "rdropped_bytes rb' = rdropped_bytes rb + word_of_nat (payload_bytes (evicted (rcap rb) m (rb_msgs rb)))"
proof -
  let ?q = "rb_msgs rb" let ?kept = "make_room (rcap rb - fsize m) ?q"
  let ?rb1 = "rb\<lparr>rlock := Mutex_held\<rparr>"
  let ?gone = "evicted (rcap rb) m ?q"
  have fr: "rb_framed ?rb1" and lk: "rlock rb = Mutex_free" using assms(1) by (simp_all add: rb_ok_def)
  note f = rb_framedD [OF fr]
  have mk: "msg_ok m" "mpayload m = payload" "fsize m = RB_FRAME_HEADER_SIZE + length payload"
    using assms(2) by (simp_all add: m_def msg_ok_def fsize_def)
  have fs: "sz_add RB_FRAME_HEADER_SIZE (unat (word_of_nat (length payload) :: u32)) = fsize m"
    "unat (word_of_nat (length payload) :: u32) = length payload"
    using assms(2) mk by (simp_all add: c_simps unat_of_nat take_bit_eq_mod RB_FRAME_HEADER_SIZE_def)
  have cap: "rused rb \<le> rcap rb" "rcap rb < 2 ^ 64" "rbuf rb \<noteq> None"
    using f(1) by (auto elim!: rb_geomE)
  have gone: "?gone = take (length ?q - length ?kept) ?q" using assms(3) mk by (simp add: evicted_def)
  have split: "rb_msgs ?rb1 = ?gone @ ?kept"
    using spec_push_evicted [of "rcap rb" m ?q] assms(3) mk by (simp add: spec_push_def stored_def)
  have ev: "evict_until (fsize m) (sz_sub (rcap rb) (rused rb)) ?rb1 = Some (droppings ?gone ?rb1)"
    using evict_until_ok [of ?rb1 ?q "fsize m"] f cap assms(3) mk gone by (simp add: c_simps)
  note d = droppings_framed [OF fr split] and df = droppings_fields [of ?gone ?rb1]
  have room: "queue_bytes (rb_msgs (droppings ?gone ?rb1)) + fsize m \<le> rcap (droppings ?gone ?rb1)"
    using make_room_bytes [of "rcap rb - fsize m" ?q] assms(3) mk d df by simp
  obtain rb2 rb3 where w: "ring_write (droppings ?gone ?rb1) (hdr_bytes (hdr_of m)) RB_FRAME_HEADER_SIZE = Some rb2"
    "ring_write rb2 (block_of data) (length payload) = Some rb3" "rb_framed rb3"
    "rb_msgs rb3 = ?kept @ [m]" "rcap rb3 = rcap rb" "rlock rb3 = Mutex_held"
    "rdropped_messages rb3 = rdropped_messages (droppings ?gone ?rb1)"
    "rdropped_bytes rb3 = rdropped_bytes (droppings ?gone ?rb1)"
    by (rule write_frame [OF d(1) room mk(1), of "length payload" "block_of data"])
      (use assms(4) mk d df in auto)
  have "rb_push (Some rb) kind flags data (word_of_nat (length payload)) = Some (0, Some (rb3\<lparr>rlock := Mutex_free\<rparr>))"
    using w ev cap assms(3) mk lk fs
    by (simp add: rb_push_def rb_mutex_lock_def rb_mutex_unlock_def Let_def hdr_of_def m_def)
  then show thesis
    by (rule that) (use w df in \<open>auto simp: rb_ok_def\<close>)
qed

lemma rb_push_oversized:
  fixes kind flags :: byte and payload :: "byte list"
  assumes "rb_ok rb" "length payload < 2 ^ 32" "rcap rb < RB_FRAME_HEADER_SIZE + length payload"
    "take (length payload) (block_of data) = payload"
  defines "m \<equiv> Msg kind flags payload"
  obtains rb' where "rb_push (Some rb) kind flags data (word_of_nat (length payload)) = Some (0, Some rb')"
    "rb_ok rb'" "rb_msgs rb' = [truncated (rcap rb) m]" "rcap rb' = rcap rb"
    "rdropped_messages rb' = rdropped_messages rb + word_of_nat (length (rb_msgs rb))"
    "rdropped_bytes rb' = rdropped_bytes rb + word_of_nat (payload_bytes (rb_msgs rb))"
proof -
  let ?q = "rb_msgs rb" let ?rb1 = "rb\<lparr>rlock := Mutex_held\<rparr>"
  let ?t = "truncated (rcap rb) m" let ?n = "rcap rb - RB_FRAME_HEADER_SIZE"
  have fr: "rb_framed ?rb1" and lk: "rlock rb = Mutex_free" using assms(1) by (simp_all add: rb_ok_def)
  note f = rb_framedD [OF fr]
  have cap: "RB_FRAME_HEADER_SIZE < rcap rb" "rcap rb < 2 ^ 63" "rbuf rb \<noteq> None"
    using f(1) by (auto elim!: rb_geomE)
  have n: "?n < 2 ^ 32" "?n < length payload" using assms(2,3) cap by linarith+
  have fs: "rcap rb < sz_add RB_FRAME_HEADER_SIZE (unat (word_of_nat (length payload) :: u32))"
    "unat (word_of_nat ?n :: u32) = ?n" "sz_sub (rcap rb) RB_FRAME_HEADER_SIZE = ?n"
    using assms(2,3) n(1) cap unat_u32 [OF n(1)]
    by (simp_all add: c_simps RB_FRAME_HEADER_SIZE_def del: of_nat_diff)
  have t: "msg_ok ?t" "mpayload ?t = take ?n payload" "fsize ?t = rcap rb"
    using n cap by (auto simp: truncated_def m_def msg_ok_def fsize_def)
  have ev: "evict_all ?rb1 = Some (droppings ?q ?rb1)" using evict_all_ok [of ?rb1 ?q] f by simp
  have split: "rb_msgs ?rb1 = ?q @ []" by simp
  note d = droppings_framed [OF fr split] and df = droppings_fields [of ?q ?rb1]
  have room: "queue_bytes (rb_msgs (droppings ?q ?rb1)) + fsize ?t \<le> rcap (droppings ?q ?rb1)"
    using t d df by simp
  have src: "take ?n (block_of data) = mpayload ?t"
    using assms(4) n t by (metis min.absorb1 less_imp_le take_take)
  obtain rb2 rb3 where w: "ring_write (droppings ?q ?rb1) (hdr_bytes (hdr_of ?t)) RB_FRAME_HEADER_SIZE = Some rb2"
    "ring_write rb2 (block_of data) ?n = Some rb3" "rb_framed rb3" "rb_msgs rb3 = [?t]"
    "rcap rb3 = rcap rb" "rlock rb3 = Mutex_held"
    "rdropped_messages rb3 = rdropped_messages (droppings ?q ?rb1)"
    "rdropped_bytes rb3 = rdropped_bytes (droppings ?q ?rb1)"
    by (rule write_frame [OF d(1) room t(1), of ?n "block_of data"]) (use src n t d df in auto)
  have "rb_push (Some rb) kind flags data (word_of_nat (length payload)) = Some (0, Some (rb3\<lparr>rlock := Mutex_free\<rparr>))"
    using w ev cap lk fs n t
    by (simp add: rb_push_def rb_mutex_lock_def rb_mutex_unlock_def Let_def hdr_of_def m_def truncated_def min_def)
  then show thesis
    by (rule that) (use w df in \<open>auto simp: rb_ok_def\<close>)
qed

text \<open>Both cases together: a push commutes with the abstraction.\<close>

lemma rb_push_refines:
  fixes kind flags :: byte and payload :: "byte list"
  assumes "rb_ok rb" "length payload < 2 ^ 32" "take (length payload) (block_of data) = payload"
  defines "m \<equiv> Msg kind flags payload"
  shows "\<exists>rb'. rb_push (Some rb) kind flags data (word_of_nat (length payload)) = Some (0, Some rb') \<and>
    rb_ok rb' \<and> rcap rb' = rcap rb \<and> rb_msgs rb' = spec_push (rcap rb) m (rb_msgs rb) \<and>
    rdropped_messages rb' = rdropped_messages rb + word_of_nat (length (evicted (rcap rb) m (rb_msgs rb))) \<and>
    rdropped_bytes rb' = rdropped_bytes rb + word_of_nat (payload_bytes (evicted (rcap rb) m (rb_msgs rb)))"
proof (cases "RB_FRAME_HEADER_SIZE + length payload \<le> rcap rb")
  case True
  obtain rb' where "rb_push (Some rb) kind flags data (word_of_nat (length payload)) = Some (0, Some rb')"
    "rb_ok rb'" "rb_msgs rb' = make_room (rcap rb - fsize m) (rb_msgs rb) @ [m]" "rcap rb' = rcap rb"
    "rdropped_messages rb' = rdropped_messages rb + word_of_nat (length (evicted (rcap rb) m (rb_msgs rb)))"
    "rdropped_bytes rb' = rdropped_bytes rb + word_of_nat (payload_bytes (evicted (rcap rb) m (rb_msgs rb)))"
    using rb_push_fits [OF assms(1,2) True assms(3), of kind flags] unfolding m_def by blast
  moreover have "fsize m \<le> rcap rb" using True by (simp add: m_def fsize_def)
  ultimately show ?thesis by (auto simp: spec_push_def)
next
  case False
  then have big: "rcap rb < RB_FRAME_HEADER_SIZE + length payload" by simp
  obtain rb' where "rb_push (Some rb) kind flags data (word_of_nat (length payload)) = Some (0, Some rb')"
    "rb_ok rb'" "rb_msgs rb' = [truncated (rcap rb) m]" "rcap rb' = rcap rb"
    "rdropped_messages rb' = rdropped_messages rb + word_of_nat (length (rb_msgs rb))"
    "rdropped_bytes rb' = rdropped_bytes rb + word_of_nat (payload_bytes (rb_msgs rb))"
    using rb_push_oversized [OF assms(1,2) big assms(3), of kind flags] unfolding m_def by blast
  moreover have "\<not> fsize m \<le> rcap rb" using False by (simp add: m_def fsize_def)
  ultimately show ?thesis by (auto simp: spec_push_def evicted_def)
qed

subsection \<open>Pop\<close>

lemma rb_lock_unlock [simp]:
  "rlock rb = Mutex_free \<Longrightarrow> rb_mutex_lock rb = Some (rb\<lparr>rlock := Mutex_held\<rparr>)"
  "rlock rb = Mutex_held \<Longrightarrow> rb_mutex_unlock rb = Some (rb\<lparr>rlock := Mutex_free\<rparr>)"
  by (simp_all add: rb_mutex_lock_def rb_mutex_unlock_def)

lemma rb_relock [simp]: "rlock rb = Mutex_free \<Longrightarrow> rb\<lparr>rlock := Mutex_free\<rparr> = rb"
  by (cases rb) simp

lemma rb_pop_empty:
  assumes "rb_ok rb" "rb_msgs rb = []"
  shows "rb_pop (Some rb) out out_cap = Some (RB_EMPTY, pop_none out, Some rb)"
proof -
  have "rused rb = 0" "rbuf rb \<noteq> None" "rlock rb = Mutex_free"
    using assms rb_framed_empty_iff by (auto simp: rb_ok_def rb_framed_def elim!: rb_geomE)
  then show ?thesis by (auto simp: rb_pop_def)
qed

text \<open>What every delivering pop computes before it looks at the caller's buffer.\<close>

lemma rb_pop_head:
  assumes "rb_ok rb" "rb_msgs rb = m # q"
  defines "rb1 \<equiv> rb\<lparr>rlock := Mutex_held\<rparr>"
  shows "\<not> rused rb < RB_FRAME_HEADER_SIZE" "rbuf rb \<noteq> None" "rlock rb = Mutex_free"
    "ring_peek rb1 hdr_local RB_FRAME_HEADER_SIZE = Some (hdr_bytes (hdr_of m))"
    "sz_add RB_FRAME_HEADER_SIZE (unat (hdr_len (hdr_of m))) = fsize m" "\<not> rused rb < fsize m"
    "sz_mod (sz_add (rtail rb) RB_FRAME_HEADER_SIZE) (rcap rb) = Some ((rtail rb + RB_FRAME_HEADER_SIZE) mod rcap rb)"
    "sz_sub (rused rb) RB_FRAME_HEADER_SIZE = rused rb - RB_FRAME_HEADER_SIZE"
    "rb1\<lparr>rtail := (rtail rb + RB_FRAME_HEADER_SIZE) mod rcap rb,
      rused := rused rb - RB_FRAME_HEADER_SIZE\<rparr> = advance RB_FRAME_HEADER_SIZE rb1"
    "rb_geom (advance RB_FRAME_HEADER_SIZE rb1)"
    "rb_content (advance RB_FRAME_HEADER_SIZE rb1) = mpayload m @ concat (map frame q)"
    "msg_ok m" "fsize m \<le> rused rb" "rcap rb < 2 ^ 63" "rused rb \<le> rcap rb" "rb_geom rb1"
proof -
  have fr: "rb_framed rb1" and lk: "rlock rb = Mutex_free"
    using assms(1) by (simp_all add: rb_ok_def rb1_def)
  note f = rb_framedD [OF fr]
  have q: "rb_msgs rb1 = m # q" using assms(2) by (simp add: rb1_def)
  have u: "rused rb = fsize m + queue_bytes q" using f(4) q by (simp add: rb1_def)
  have cap: "rcap rb < 2 ^ 63" "rtail rb < rcap rb" "rused rb \<le> rcap rb" "rbuf rb \<noteq> None"
    using f(1) by (auto elim!: rb_geomE simp: rb1_def)
  have le: "RB_FRAME_HEADER_SIZE \<le> rused rb1" using u fsize_ge [of m] by (simp add: rb1_def trans_le_add1)
  have mk: "msg_ok m" using f(3) q by simp
  have c: "rb_content rb1 = frame m @ concat (map frame q)" using f(2) q by simp
  show "\<not> rused rb < RB_FRAME_HEADER_SIZE" using le by (simp add: rb1_def)
  show "rbuf rb \<noteq> None" "rlock rb = Mutex_free" "msg_ok m" "rcap rb < 2 ^ 63" "rused rb \<le> rcap rb"
    "rb_geom rb1" by fact+
  show "ring_peek rb1 hdr_local RB_FRAME_HEADER_SIZE = Some (hdr_bytes (hdr_of m))"
    using ring_peek_ok [OF f(1) le] by (simp add: c del: take_append)
  show "sz_add RB_FRAME_HEADER_SIZE (unat (hdr_len (hdr_of m))) = fsize m"
    using mk u cap by (simp add: c_simps fsize_def)
  show "\<not> rused rb < fsize m" "fsize m \<le> rused rb" using u by simp_all
  show "sz_mod (sz_add (rtail rb) RB_FRAME_HEADER_SIZE) (rcap rb) = Some ((rtail rb + RB_FRAME_HEADER_SIZE) mod rcap rb)"
    "sz_sub (rused rb) RB_FRAME_HEADER_SIZE = rused rb - RB_FRAME_HEADER_SIZE"
    using cap le by (simp_all add: c_simps rb1_def RB_FRAME_HEADER_SIZE_def)
  show "rb1\<lparr>rtail := (rtail rb + RB_FRAME_HEADER_SIZE) mod rcap rb,
      rused := rused rb - RB_FRAME_HEADER_SIZE\<rparr> = advance RB_FRAME_HEADER_SIZE rb1"
    by (simp add: advance_def rb1_def)
  show "rb_geom (advance RB_FRAME_HEADER_SIZE rb1)"
    "rb_content (advance RB_FRAME_HEADER_SIZE rb1) = mpayload m @ concat (map frame q)"
    using advance_geom [OF f(1) le] advance_content [OF f(1) le] by (simp_all add: c del: drop_append)
qed

text \<open>The ring after the front message left it.\<close>

lemma rb_after_pop:
  assumes "rb_ok rb" "rb_msgs rb = m # q"
  defines "rb' \<equiv> (advance (fsize m) (rb\<lparr>rlock := Mutex_held\<rparr>))\<lparr>rlock := Mutex_free\<rparr>"
  shows "rb_ok rb'" "rb_msgs rb' = q" "rcap rb' = rcap rb"
    "rdropped_messages rb' = rdropped_messages rb" "rdropped_bytes rb' = rdropped_bytes rb"
proof -
  have fr: "rb_framed rb" using assms(1) by (simp add: rb_ok_def)
  note f = rb_framedD [OF fr]
  have "fsize m \<le> rused (rb\<lparr>rlock := Mutex_held\<rparr>)" using f(4) assms(2) by simp
  then have "rb_geom rb'" "rb_content rb' = concat (map frame q)"
    using advance_geom [of "rb\<lparr>rlock := Mutex_held\<rparr>" "fsize m"] f(1,2) assms(2)
      advance_content [of "rb\<lparr>rlock := Mutex_held\<rparr>" "fsize m"]
    by (simp_all add: rb'_def)
  then show "rb_ok rb'" "rb_msgs rb' = q"
    using rb_framedI [of rb' q] f(3) assms(2) by (auto simp: rb_ok_def rb'_def)
qed (simp_all add: rb'_def)

lemma rb_pop_refines:
  assumes "rb_ok rb" "rb_msgs rb = m # q" "unat out_cap \<le> length out"
  shows "\<exists>rb' out'. rb_pop (Some rb) out out_cap =
      Some (if length (mpayload m) \<le> unat out_cap then RB_OK else RB_TRUNCATED_COPY,
        \<lparr>pop_kind = Some (mkind m), pop_flags = Some (mflags m),
         pop_len = Some (word_of_nat (min (length (mpayload m)) (unat out_cap))), pop_buf = out'\<rparr>, Some rb') \<and>
    out' = take (unat out_cap) (mpayload m) @ drop (length (mpayload m)) (take (unat out_cap) out) @ drop (unat out_cap) out \<and>
    rb_ok rb' \<and> rb_msgs rb' = q \<and> rcap rb' = rcap rb \<and>
    rdropped_messages rb' = rdropped_messages rb \<and> rdropped_bytes rb' = rdropped_bytes rb"
proof -
  let ?rb1 = "rb\<lparr>rlock := Mutex_held\<rparr>" let ?rb2 = "advance RB_FRAME_HEADER_SIZE ?rb1"
  let ?n = "length (mpayload m)"
  let ?rb' = "(advance (fsize m) ?rb1)\<lparr>rlock := Mutex_free\<rparr>"
  note h = rb_pop_head [OF assms(1,2)] and after = rb_after_pop [OF assms(1,2)]
  have lenle: "hdr_len (hdr_of m) \<le> out_cap \<longleftrightarrow> ?n \<le> unat out_cap"
    using h(12) by (simp add: word_le_nat_alt)
  have u2: "?n \<le> rused ?rb2" using h(13) by (simp add: fsize_def)
  show ?thesis
  proof (cases "?n \<le> unat out_cap")
    case True
    have rd: "ring_read ?rb2 out ?n = Some (mpayload m @ drop ?n out, advance (fsize m) ?rb1)"
      using ring_read_ok [OF h(10) u2, of out] assms(3) True h(11) by (simp add: advance_advance fsize_def)
    have "rb_pop (Some rb) out out_cap = Some (RB_OK, \<lparr>pop_kind = Some (mkind m), pop_flags = Some (mflags m),
        pop_len = Some (hdr_len (hdr_of m)), pop_buf = mpayload m @ drop ?n out\<rparr>, Some ?rb')"
      using h True lenle rd by (auto simp: rb_pop_def Let_def)
    moreover have "hdr_len (hdr_of m) = word_of_nat ?n" by (simp add: hdr_of_def)
    moreover have "drop ?n out = drop ?n (take (unat out_cap) out) @ drop (unat out_cap) out"
      using True assms(3) by (metis append_take_drop_id drop_append drop_0 diff_is_0_eq length_take min.absorb2)
    ultimately show ?thesis using True after by (auto simp: min_def)
  next
    case False
    let ?c = "unat out_cap"
    have le: "?c \<le> rused ?rb2" using u2 False by linarith
    have rd: "ring_read ?rb2 out ?c = Some (take ?c (mpayload m) @ drop ?c out, advance ?c ?rb2)"
      using ring_read_ok [OF h(10) le assms(3)] False h(11) by simp
    have rem: "unat (hdr_len (hdr_of m) - out_cap) = ?n - ?c"
      using h(12) False by (simp add: unat_sub word_le_nat_alt)
    let ?rb3 = "advance ?c ?rb2"
    have u3: "rused ?rb3 \<le> rcap rb" "?n - ?c \<le> rused ?rb3" "rtail ?rb3 < rcap rb"
      using h(13,14,15,16) le u2 by (auto simp: advance_def fsize_def elim!: rb_geomE)
    then have ar: "sz_mod (sz_add (rtail ?rb3) (?n - ?c)) (rcap rb) = Some ((rtail ?rb3 + (?n - ?c)) mod rcap rb)"
      "sz_sub (rused ?rb3) (?n - ?c) = rused ?rb3 - (?n - ?c)"
      using h(14) by (simp_all add: c_simps del: advance_fields)
    have adv: "?rb3\<lparr>rtail := (rtail ?rb3 + (?n - ?c)) mod rcap rb, rused := rused ?rb3 - (?n - ?c)\<rparr>
        = advance (fsize m) ?rb1"
      using False advance_advance [of "?n - ?c" ?c ?rb2] advance_advance [of ?n RB_FRAME_HEADER_SIZE ?rb1]
      by (simp add: advance_def [of "?n - ?c"] fsize_def)
    have "rb_pop (Some rb) out out_cap = Some (RB_TRUNCATED_COPY, \<lparr>pop_kind = Some (mkind m),
        pop_flags = Some (mflags m), pop_len = Some out_cap, pop_buf = take ?c (mpayload m) @ drop ?c out\<rparr>, Some ?rb')"
      using h(1-10) False lenle rd rem ar adv by (auto simp: rb_pop_def Let_def)
    then show ?thesis using False after by (auto simp: min_def)
  qed
qed

end
