(* ===== verification/Ring_Queue.thy ===== *)
theory Ring_Queue
  imports Ring_Refine
begin

section \<open>The ring buffer as the bridge's message queue\<close>

text \<open>
  The remaining operations, the interpretation of the interface \<open>message_queue\<close> by the
  ring buffer, runs of arbitrary calls, and the properties of the component.
\<close>

subsection \<open>Lifecycle and queries\<close>

lemma rb_geom_empty:
  "rbuf rb = Some b \<Longrightarrow> length b = rcap rb \<Longrightarrow> RB_FRAME_HEADER_SIZE < rcap rb \<Longrightarrow> rcap rb < 2 ^ 63 \<Longrightarrow>
   rhead rb = 0 \<Longrightarrow> rtail rb = 0 \<Longrightarrow> rused rb = 0 \<Longrightarrow> rlock rb = Mutex_free \<Longrightarrow>
   rb_ok rb \<and> rb_msgs rb = []"
  using rb_framedI [of rb "[]"] header_size_pos
  by (simp add: rb_geom_def rb_content_def ring_bytes_def rb_ok_def)

lemma rb_init_ok:
  assumes "RB_FRAME_HEADER_SIZE < cap" "cap < 2 ^ 63" "mal cap = Some b" "length b = cap"
  obtains rb' where "rb_init mal 0 (Some rb) cap = (0, Some rb')" "rb_ok rb'" "rb_msgs rb' = []"
    "rcap rb' = cap" "rdropped_messages rb' = 0" "rdropped_bytes rb' = 0"
proof -
  let ?rb' = "rb\<lparr>rbuf := Some b, rcap := cap, rhead := 0, rtail := 0, rused := 0,
    rdropped_messages := 0, rdropped_bytes := 0, rlock := Mutex_free\<rparr>"
  have "rb_init mal 0 (Some rb) cap = (0, Some ?rb')"
    using assms by (simp add: rb_init_def Let_def c_simps RB_FRAME_HEADER_SIZE_def)
  moreover have "rb_ok ?rb' \<and> rb_msgs ?rb' = []" using assms by (intro rb_geom_empty [of _ b]) simp_all
  ultimately show thesis using that [of ?rb'] by simp
qed

lemma rb_reset_ok:
  assumes "rb_ok rb"
  obtains rb' where "rb_reset (Some rb) = Some (Some rb')" "rb_ok rb'" "rb_msgs rb' = []"
    "rcap rb' = rcap rb" "rdropped_messages rb' = 0" "rdropped_bytes rb' = 0"
proof -
  let ?rb' = "rb\<lparr>rhead := 0, rtail := 0, rused := 0, rdropped_messages := 0, rdropped_bytes := 0\<rparr>"
  have lk: "rlock rb = Mutex_free" and g: "rb_geom rb" using assms by (simp_all add: rb_ok_def rb_framed_def)
  then have "rb_reset (Some rb) = Some (Some (?rb'\<lparr>rlock := Mutex_free\<rparr>))"
    by (simp add: rb_reset_def Let_def)
  moreover have "rb_ok (?rb'\<lparr>rlock := Mutex_free\<rparr>) \<and> rb_msgs (?rb'\<lparr>rlock := Mutex_free\<rparr>) = []"
    using g by (elim rb_geomE) (intro rb_geom_empty, simp_all)
  ultimately show thesis using that by (simp del: rb_framed_lock)
qed

lemma rb_has_data_ok:
  assumes "rb_ok rb"
  shows "rb_has_data (Some rb) = Some (rb_msgs rb \<noteq> [], Some rb)"
proof -
  have fr: "rb_framed rb" and lk: "rlock rb = Mutex_free" using assms by (simp_all add: rb_ok_def)
  have "(RB_FRAME_HEADER_SIZE \<le> rused rb) = (rb_msgs rb \<noteq> [])"
  proof (cases "rb_msgs rb")
    case Nil
    with rb_framedD(4) [OF fr] show ?thesis by (simp add: RB_FRAME_HEADER_SIZE_def)
  next
    case (Cons m q)
    with rb_framedD(4) [OF fr] fsize_ge [of m] show ?thesis by (simp add: trans_le_add1)
  qed
  with lk show ?thesis by (simp add: rb_has_data_def Let_def)
qed

lemma rb_dropped_ok:
  assumes "rb_ok rb"
  shows "rb_dropped_messages (Some rb) = Some (rdropped_messages rb, Some rb)"
    "rb_dropped_bytes (Some rb) = Some (rdropped_bytes rb, Some rb)"
  using assms by (simp_all add: rb_ok_def rb_dropped_messages_def rb_dropped_bytes_def Let_def)

subsection \<open>The interface, interpreted\<close>

text \<open>
  The calls the bridge makes on a live queue: a push whose result is ignored, a pop into a
  buffer no message of the queue can exceed, a reset.
\<close>

definition rb_put :: "ring_buffer \<Rightarrow> msg \<Rightarrow> ring_buffer option" where
  "rb_put rb m = Option.bind
     (rb_push (Some rb) (mkind m) (mflags m) (Some (mpayload m)) (word_of_nat (length (mpayload m)))) snd"

definition rb_take :: "ring_buffer \<Rightarrow> (msg option \<times> ring_buffer) option" where
  "rb_take rb = (let cap = min (rcap rb) (2 ^ 32 - 1) in do {
     (rc, r, p) \<leftarrow> rb_pop (Some rb) (replicate cap 0) (word_of_nat cap);
     rb' \<leftarrow> p;
     Some (if rc = RB_OK then do {
       k \<leftarrow> pop_kind r; f \<leftarrow> pop_flags r; n \<leftarrow> pop_len r;
       Some (Msg k f (take (unat n) (pop_buf r))) } else None, rb')
   })"

definition rb_clear :: "ring_buffer \<Rightarrow> ring_buffer option" where
  "rb_clear rb = Option.bind (rb_reset (Some rb)) (\<lambda>p. p)"

lemma rb_put_law:
  assumes "rb_ok rb" "length (mpayload m) < 2 ^ 32"
  shows "\<exists>rb'. rb_put rb m = Some rb' \<and> rb_ok rb' \<and> rcap rb' = rcap rb \<and>
    rb_msgs rb' = spec_push (rcap rb) m (rb_msgs rb)"
  using rb_push_refines [OF assms, of "Some (mpayload m)" "mkind m" "mflags m"]
  by (auto simp: rb_put_def)

lemma rb_take_law:
  assumes "rb_ok rb"
  shows "\<exists>rb'. rb_take rb = Some (case rb_msgs rb of [] \<Rightarrow> None | m # _ \<Rightarrow> Some m, rb') \<and>
    rb_ok rb' \<and> rcap rb' = rcap rb \<and> rb_msgs rb' = tl (rb_msgs rb)"
proof (cases "rb_msgs rb")
  case Nil
  with assms show ?thesis by (simp add: rb_take_def Let_def rb_pop_empty rb_code_defs)
next
  case (Cons m q)
  let ?cap = "min (rcap rb) (2 ^ 32 - 1)"
  have cap: "unat (word_of_nat ?cap :: u32) = ?cap" by (intro unat_u32) simp
  have fr: "rb_framed rb" using assms by (simp add: rb_ok_def)
  have "fsize m \<le> rcap rb" "msg_ok m"
    using rb_framedD [OF fr] Cons by (auto elim!: rb_geomE)
  then have fits: "length (mpayload m) \<le> ?cap" by (simp add: fsize_def msg_ok_def)
  have len: "unat (word_of_nat (length (mpayload m)) :: u32) = length (mpayload m)"
    using \<open>msg_ok m\<close> by (intro unat_u32) (simp add: msg_ok_def)
  show ?thesis
    using rb_pop_refines [OF assms Cons, of "word_of_nat ?cap" "replicate ?cap 0"] fits Cons cap len
    by (auto simp: rb_take_def Let_def rb_code_defs min_def)
qed

interpretation ring: message_queue rb_put rb_take rb_clear rb_msgs rcap rb_ok
proof
  show "\<exists>q'. rb_put q m = Some q' \<and> rb_ok q' \<and> rcap q' = rcap q \<and> rb_msgs q' = spec_push (rcap q) m (rb_msgs q)"
    if "rb_ok q" "length (mpayload m) < 2 ^ 32" for q m
    using that by (rule rb_put_law)
  show "\<exists>q'. rb_take q = Some (case rb_msgs q of [] \<Rightarrow> None | m # _ \<Rightarrow> Some m, q') \<and>
      rb_ok q' \<and> rcap q' = rcap q \<and> rb_msgs q' = tl (rb_msgs q)" if "rb_ok q" for q
    using that by (rule rb_take_law)
  show "\<exists>q'. rb_clear q = Some q' \<and> rb_ok q' \<and> rcap q' = rcap q \<and> rb_msgs q' = []" if "rb_ok q" for q
    using that by (rule rb_reset_ok) (auto simp: rb_clear_def)
  show "RB_FRAME_HEADER_SIZE < rcap q" if "rb_ok q" for q
    using that by (auto simp: rb_ok_def rb_framed_def elim!: rb_geomE)
qed

subsection \<open>Runs of arbitrary calls\<close>

datatype rb_call =
    Call_push byte byte "byte list"
  | Call_pop "byte list" u32
  | Call_reset
  | Call_has_data
  | Call_dropped_messages
  | Call_dropped_bytes

text \<open>The ring after a call, whatever the call returned.\<close>

fun rb_do :: "rb_call \<Rightarrow> ring_buffer \<Rightarrow> ring_buffer option" where
  "rb_do (Call_push k f d) rb = Option.bind (rb_push (Some rb) k f (Some d) (word_of_nat (length d))) snd"
| "rb_do (Call_pop out n) rb = Option.bind (rb_pop (Some rb) out n) (\<lambda>(_, _, p). p)"
| "rb_do Call_reset rb = Option.bind (rb_reset (Some rb)) (\<lambda>p. p)"
| "rb_do Call_has_data rb = Option.bind (rb_has_data (Some rb)) snd"
| "rb_do Call_dropped_messages rb = Option.bind (rb_dropped_messages (Some rb)) snd"
| "rb_do Call_dropped_bytes rb = Option.bind (rb_dropped_bytes (Some rb)) snd"

fun rb_run :: "rb_call list \<Rightarrow> ring_buffer \<Rightarrow> ring_buffer option" where
  "rb_run [] rb = Some rb"
| "rb_run (c # cs) rb = Option.bind (rb_do c rb) (rb_run cs)"

text \<open>What the C signatures demand of a caller: a 32-bit length, and an output block of at least
  the announced capacity.\<close>

fun call_ok :: "rb_call \<Rightarrow> bool" where
  "call_ok (Call_push k f d) = (length d < 2 ^ 32)"
| "call_ok (Call_pop out n) = (unat n \<le> length out)"
| "call_ok _ = True"

fun spec_do :: "nat \<Rightarrow> rb_call \<Rightarrow> msg list \<Rightarrow> msg list" where
  "spec_do cap (Call_push k f d) q = spec_push cap (Msg k f d) q"
| "spec_do cap (Call_pop out n) q = tl q"
| "spec_do cap Call_reset q = []"
| "spec_do cap _ q = q"

lemma rb_do_refines:
  assumes "rb_ok rb" "call_ok c"
  shows "\<exists>rb'. rb_do c rb = Some rb' \<and> rb_ok rb' \<and> rcap rb' = rcap rb \<and>
    rb_msgs rb' = spec_do (rcap rb) c (rb_msgs rb)"
proof (cases c)
  case (Call_push k f d)
  with assms rb_push_refines [of rb d "Some d" k f] show ?thesis by auto
next
  case (Call_pop out n)
  with assms rb_pop_refines [of rb _ _ n out] rb_pop_empty [of rb out n] show ?thesis
    by (cases "rb_msgs rb") fastforce+
next
  case Call_reset
  with rb_reset_ok [OF assms(1)] show ?thesis by auto
qed (use assms in \<open>auto simp: rb_has_data_ok rb_dropped_ok\<close>)

lemma rb_run_refines:
  "rb_ok rb \<Longrightarrow> \<forall>c \<in> set cs. call_ok c \<Longrightarrow>
   \<exists>rb'. rb_run cs rb = Some rb' \<and> rb_ok rb' \<and> rcap rb' = rcap rb \<and>
     rb_msgs rb' = fold (spec_do (rcap rb)) cs (rb_msgs rb)"
proof (induction cs arbitrary: rb)
  case Nil
  then show ?case by simp
next
  case (Cons c cs)
  then obtain rb1 where "rb_do c rb = Some rb1" "rb_ok rb1" "rcap rb1 = rcap rb"
    "rb_msgs rb1 = spec_do (rcap rb) c (rb_msgs rb)"
    using rb_do_refines [of rb c] by auto
  with Cons show ?case by fastforce
qed

subsection \<open>A concrete ring\<close>

text \<open>
  Sixteen bytes that hold one message, \<open>ABC\<close> on standard output, whose frame starts at
  offset 12 and wraps around the end of the block.
\<close>

definition demo_ring :: ring_buffer where
  "demo_ring = \<lparr>rbuf = Some ([0, 0, 65, 66, 67, 0, 0, 0, 0, 0, 0, 0, 0, 0, 3, 0]), rcap = 16, rhead = 5,
     rtail = 12, rused = 9, rdropped_messages = 0, rdropped_bytes = 0, rlock = Mutex_free\<rparr>"

lemma demo_ring_ok: "rb_ok demo_ring" "rb_msgs demo_ring = [Msg 0 0 [65, 66, 67]]" "rcap demo_ring = 16"
proof -
  have c: "rb_content demo_ring = concat (map frame [Msg 0 0 [65, 66, 67]])"
    by (simp add: rb_content_def ring_bytes_def demo_ring_def frame_def hdr_bytes_def)
  have "rb_geom demo_ring" by (simp add: rb_geom_def demo_ring_def RB_FRAME_HEADER_SIZE_def)
  then show "rb_ok demo_ring" "rb_msgs demo_ring = [Msg 0 0 [65, 66, 67]]" "rcap demo_ring = 16"
    using rb_framedI [OF _ c] by (simp_all add: rb_ok_def msg_ok_def demo_ring_def)
qed

subsection \<open>Properties\<close>

text \<open>C2: A push of a message of any 32-bit length onto a well-formed ring returns 0 without
  touching memory outside its blocks, without looping and with the mutex released. It evicts a
  prefix of the stored messages and appends the new one last (truncated to the capacity and flagged
  if it can never fit); when the message fits, keeping one message more would not have left room.
  Both drop counters advance by exactly the evicted messages and payload bytes, modulo
  \<open>2 ^ 64\<close>.\<close>

theorem ring_push_correct:
  assumes "rb_ok rb" "length payload < 2 ^ 32" "take (length payload) (block_of data) = payload"
  shows "\<exists>rb' gone kept.
    rb_push (Some rb) kind flags data (word_of_nat (length payload)) = Some (0, Some rb') \<and>
    rb_ok rb' \<and> rcap rb' = rcap rb \<and> rb_msgs rb = gone @ kept \<and>
    rb_msgs rb' = kept @ [stored (rcap rb) (Msg kind flags payload)] \<and>
    rdropped_messages rb' = rdropped_messages rb + word_of_nat (length gone) \<and>
    rdropped_bytes rb' = rdropped_bytes rb + word_of_nat (payload_bytes gone) \<and>
    (fsize (Msg kind flags payload) \<le> rcap rb \<and> gone \<noteq> [] \<longrightarrow>
      rcap rb < fsize (last gone) + queue_bytes kept + fsize (Msg kind flags payload))"
proof -
  let ?m = "Msg kind flags payload" let ?gone = "evicted (rcap rb) ?m (rb_msgs rb)"
  obtain rb' where rb': "rb_push (Some rb) kind flags data (word_of_nat (length payload)) = Some (0, Some rb')"
    "rb_ok rb'" "rcap rb' = rcap rb" "rb_msgs rb' = spec_push (rcap rb) ?m (rb_msgs rb)"
    "rdropped_messages rb' = rdropped_messages rb + word_of_nat (length ?gone)"
    "rdropped_bytes rb' = rdropped_bytes rb + word_of_nat (payload_bytes ?gone)"
    using rb_push_refines [OF assms, of kind flags] by blast
  let ?kept = "butlast (spec_push (rcap rb) ?m (rb_msgs rb))"
  have sp: "spec_push (rcap rb) ?m (rb_msgs rb) = ?kept @ [stored (rcap rb) ?m]"
    using spec_push_last by (metis append_butlast_last_id)
  have split: "rb_msgs rb = ?gone @ ?kept"
    using spec_push_evicted [of "rcap rb" ?m "rb_msgs rb"] sp by (metis append_assoc append1_eq_conv)
  have "rcap rb < fsize (last ?gone) + queue_bytes ?kept + fsize ?m"
    if fits: "fsize ?m \<le> rcap rb" and "?gone \<noteq> []"
  proof -
    have k: "?kept = make_room (rcap rb - fsize ?m) (rb_msgs rb)" using fits by (simp add: spec_push_def)
    have "rb_msgs rb = butlast ?gone @ last ?gone # make_room (rcap rb - fsize ?m) (rb_msgs rb)"
      using split k append_butlast_last_id [OF that(2)] by (metis append_Cons append_Nil append_assoc)
    from make_room_minimal [OF this] fits show ?thesis unfolding k by linarith
  qed
  with rb' sp split show ?thesis by metis
qed

theorem ring_push_correct_witness:
  "\<exists>rb' gone kept. rb_push (Some demo_ring) RB_MSG_STDERR 0 (Some [1, 2, 3]) 3 = Some (0, Some rb') \<and>
    [Msg 0 0 [65, 66, 67]] = gone @ kept \<and> rb_msgs rb' = kept @ [Msg RB_MSG_STDERR 0 [1, 2, 3]] \<and>
    (gone \<noteq> [] \<longrightarrow> 16 < fsize (last gone) + queue_bytes kept + 9)"
proof -
  have "rb_ok demo_ring" "length [1, 2, 3 :: byte] < 2 ^ 32"
    "take (length [1, 2, 3 :: byte]) (block_of (Some [1, 2, 3])) = [1, 2, 3]"
    by (simp_all add: demo_ring_ok)
  from ring_push_correct [OF this, of RB_MSG_STDERR 0] show ?thesis
    by (fastforce simp: demo_ring_ok stored_def fsize_def RB_FRAME_HEADER_SIZE_def)
qed

text \<open>C6: A pop on a well-formed, non-empty ring delivers the oldest message: its kind and flags, and
  as many of its payload bytes as the caller's buffer takes, with \<open>RB_OK\<close> if all of them fitted
  and \<open>RB_TRUNCATED_COPY\<close> otherwise. The rest of the caller's buffer is untouched, the message
  leaves the queue whole, and the ring stays well-formed with its mutex released.\<close>

theorem ring_pop_correct:
  assumes "rb_ok rb" "rb_msgs rb = m # q" "unat out_cap \<le> length out"
  shows "\<exists>rb' r. rb_pop (Some rb) out out_cap =
      Some (if length (mpayload m) \<le> unat out_cap then RB_OK else RB_TRUNCATED_COPY, r, Some rb') \<and>
    pop_kind r = Some (mkind m) \<and> pop_flags r = Some (mflags m) \<and>
    pop_len r = Some (word_of_nat (min (length (mpayload m)) (unat out_cap))) \<and>
    take (min (length (mpayload m)) (unat out_cap)) (pop_buf r) = take (unat out_cap) (mpayload m) \<and>
    drop (min (length (mpayload m)) (unat out_cap)) (pop_buf r)
      = drop (min (length (mpayload m)) (unat out_cap)) out \<and>
    rb_ok rb' \<and> rb_msgs rb' = q \<and> rcap rb' = rcap rb \<and>
    rdropped_messages rb' = rdropped_messages rb \<and> rdropped_bytes rb' = rdropped_bytes rb"
proof -
  let ?n = "length (mpayload m)" let ?c = "unat out_cap"
  have d: "drop ?n out = drop ?n (take ?c out) @ drop ?c out" if "?n \<le> ?c"
    using that assms(3) by (metis append_take_drop_id drop_append drop_0 diff_is_0_eq length_take min.absorb2)
  show ?thesis
    using rb_pop_refines [OF assms] d by (cases "?n \<le> ?c") (auto simp: min_def)
qed

theorem ring_pop_correct_witness:
  "\<exists>rb' r. rb_pop (Some demo_ring) (replicate 2 0) 2 = Some (RB_TRUNCATED_COPY, r, Some rb') \<and>
    pop_kind r = Some RB_MSG_STDOUT \<and> pop_len r = Some 2 \<and> take 2 (pop_buf r) = [65, 66] \<and> rb_msgs rb' = []"
proof -
  have "unat (2 :: u32) \<le> length (replicate 2 (0 :: byte))" by simp
  from ring_pop_correct [OF demo_ring_ok(1,2) this] show ?thesis
    by (fastforce simp: rb_msg_defs min_def)
qed

text \<open>C13: Messages are delivered exactly once and in order: pushed onto a freshly initialised ring, any
  list of messages that fits in it comes back unchanged from the pops that follow, and leaves the
  ring empty.\<close>

theorem ring_fifo:
  assumes "RB_FRAME_HEADER_SIZE < cap" "cap < 2 ^ 63" "mal cap = Some b" "length b = cap"
    "queue_bytes ms \<le> cap" "\<forall>m \<in> set ms. length (mpayload m) < 2 ^ 32"
  shows "\<exists>rb rb1 rb2. rb_init mal 0 (Some rb0) cap = (0, Some rb) \<and> ring.put_all rb ms = Some rb1 \<and>
    ring.drain (length ms) rb1 = Some (ms, rb2) \<and> rb_has_data (Some rb2) = Some (False, Some rb2)"
proof -
  obtain rb where rb: "rb_init mal 0 (Some rb0) cap = (0, Some rb)" "rb_ok rb" "rb_msgs rb = []" "rcap rb = cap"
    using rb_init_ok [of cap mal b rb0] assms(1-4) by blast
  obtain rb1 where rb1: "ring.put_all rb ms = Some rb1" "rb_ok rb1" "rb_msgs rb1 = ms"
    using ring.put_all_fits [of rb ms] rb assms(5,6) by auto
  obtain rb2 where "ring.drain (length ms) rb1 = Some (ms, rb2)" "rb_ok rb2" "rb_msgs rb2 = []"
    using ring.drain_law [of rb1 "length ms"] rb1 by auto
  with rb rb1 show ?thesis by (auto simp: rb_has_data_ok)
qed

theorem ring_fifo_witness:
  "\<exists>rb rb1 rb2. rb_init (\<lambda>n. Some (replicate n 7)) 0 (Some demo_ring) 64 = (0, Some rb) \<and>
    ring.put_all rb [Msg 0 0 [1, 2], Msg 5 0 []] = Some rb1 \<and>
    ring.drain (length [Msg 0 0 [1, 2], Msg 5 0 []]) rb1 = Some ([Msg 0 0 [1, 2], Msg 5 0 []], rb2) \<and>
    rb_has_data (Some rb2) = Some (False, Some rb2)"
  by (rule ring_fifo [of 64 _ "replicate 64 7"]) (simp_all add: fsize_def RB_FRAME_HEADER_SIZE_def)

text \<open>C14: Whatever calls the two threads make on an initialised ring, and in whatever order (the
  mutex makes each of them atomic), every call returns, the ring stays well-formed, its mutex is free
  between calls, and its messages are those of the abstract drop-oldest queue.\<close>

theorem ring_run_safe:
  assumes "RB_FRAME_HEADER_SIZE < cap" "cap < 2 ^ 63" "mal cap = Some b" "length b = cap"
    "\<forall>c \<in> set cs. call_ok c"
  shows "\<exists>rb rb'. rb_init mal 0 (Some rb0) cap = (0, Some rb) \<and> rb_run cs rb = Some rb' \<and>
    rb_ok rb' \<and> rb_msgs rb' = fold (spec_do cap) cs [] \<and> queue_bytes (rb_msgs rb') \<le> cap"
proof -
  obtain rb where rb: "rb_init mal 0 (Some rb0) cap = (0, Some rb)" "rb_ok rb" "rb_msgs rb = []" "rcap rb = cap"
    using rb_init_ok [of cap mal b rb0] assms(1-4) by blast
  obtain rb' where rb': "rb_run cs rb = Some rb'" "rb_ok rb'" "rcap rb' = cap"
    "rb_msgs rb' = fold (spec_do cap) cs []"
    using rb_run_refines [OF rb(2) assms(5)] rb by auto
  have "rb_framed rb'" using rb'(2) by (simp add: rb_ok_def)
  from rb_framedD [OF this] rb'(3) have "queue_bytes (rb_msgs rb') \<le> cap" by (auto elim!: rb_geomE)
  with rb rb' show ?thesis by blast
qed

theorem ring_run_safe_witness:
  "\<exists>rb rb'. rb_init (\<lambda>n. Some (replicate n 7)) 0 (Some demo_ring) 16 = (0, Some rb) \<and>
    rb_run [Call_push 0 0 [1, 2, 3], Call_push 1 0 [4, 5], Call_pop [] 0, Call_has_data] rb = Some rb' \<and>
    rb_msgs rb' = []"
proof -
  let ?cs = "[Call_push 0 0 [1, 2, 3], Call_push 1 0 [4, 5], Call_pop [] 0, Call_has_data]"
  have "fold (spec_do 16) ?cs [] = []"
    by (simp add: spec_push_def fsize_def RB_FRAME_HEADER_SIZE_def)
  with ring_run_safe [of 16 "\<lambda>n. Some (replicate n 7)" "replicate 16 7" ?cs demo_ring] show ?thesis
    by (fastforce simp: RB_FRAME_HEADER_SIZE_def)
qed

text \<open>C34: After \<open>rb_deinit\<close> a push or a pop is refused with its error code and leaves the ring
  alone, but \<open>rb_has_data\<close>, \<open>rb_reset\<close> and the two counter queries, which test only the
  pointer and not the buffer, lock the destroyed mutex: their behaviour is undefined.\<close>

theorem ring_after_deinit:
  assumes "rb_ok rb"
  shows "\<exists>rb'. rb_deinit (Some rb) = Some (Some rb') \<and>
    rb_push (Some rb') kind flags data len = Some (-1, Some rb') \<and>
    rb_pop (Some rb') out out_cap = Some (RB_ERROR, pop_none out, Some rb') \<and>
    rb_has_data (Some rb') = None \<and> rb_reset (Some rb') = None \<and>
    rb_dropped_messages (Some rb') = None \<and> rb_dropped_bytes (Some rb') = None"
  using assms
  by (simp add: rb_ok_def rb_deinit_def rb_push_def rb_pop_def rb_has_data_def rb_reset_def
      rb_dropped_messages_def rb_dropped_bytes_def rb_mutex_lock_def)

theorem ring_after_deinit_witness:
  "\<exists>rb'. rb_deinit (Some demo_ring) = Some (Some rb') \<and> rb_push (Some rb') 0 0 None 0 = Some (-1, Some rb') \<and>
    rb_has_data (Some rb') = None"
  using ring_after_deinit [OF demo_ring_ok(1), of 0 0 None 0 "[]" 0] by blast

text \<open>\<open>rb_init\<close> reports every failure: a null pointer, a capacity that cannot hold a header
  and one payload byte, a failed allocation and a failed mutex give -1, and in each case a later push
  or pop on an object that had no buffer before is refused.\<close>

theorem ring_init_errors:
  assumes "rbuf rb = None" "p = None \<or> p = Some rb"
    "p = None \<or> cap \<le> RB_FRAME_HEADER_SIZE \<or> mal cap = None \<or> mutex_rc \<noteq> 0" "cap < 2 ^ 64"
  shows "\<exists>p'. rb_init mal mutex_rc p cap = (-1, p') \<and>
    rb_push p' kind flags data len = Some (-1, p') \<and>
    rb_pop p' out out_cap = Some (RB_ERROR, pop_none out, p')"
  using assms
  by (auto simp: rb_init_def Let_def rb_push_def rb_pop_def c_simps RB_FRAME_HEADER_SIZE_def
      split: option.splits)

theorem ring_init_errors_witness:
  "\<exists>p'. rb_init (\<lambda>n. Some (replicate n 0)) 12 (Some (demo_ring\<lparr>rbuf := None\<rparr>)) 16 = (-1, p') \<and>
    rb_push p' 0 0 None 0 = Some (-1, p') \<and> rb_pop p' [] 0 = Some (RB_ERROR, pop_none [], p')"
  by (rule ring_init_errors [of "demo_ring\<lparr>rbuf := None\<rparr>"]) (simp_all add: RB_FRAME_HEADER_SIZE_def)

end
