(* ===== verification/Bridge_State.thy ===== *)
theory Bridge_State
  imports Ring_Queue
begin

section \<open>The state of the bridge and the R runtime behind it\<close>

text \<open>
  The global variables of \<open>c_ffi/load_r.c\<close> as one record, and the interface of
  \<open>libR\<close>, which is loaded at run time and is an argument of the model.
\<close>

subsection \<open>The R runtime\<close>

text \<open>
  A call into R runs R code, which calls back into the bridge any number of times before it
  returns or is abandoned by a jump to top level. \<open>('a, 'h) rcall\<close> is such a call: the tree
  of its callbacks, in order, with what R does next depending on what a callback gave it. The
  last node carries the heap \<open>'h\<close> that R leaves behind. Trees are finite: the model is about
  calls into R that end, by returning or by a jump.
\<close>

datatype ('a, 'h) rcall =
    R_return 'a 'h
  | R_longjmp 'h
  | R_write "byte list" int "('a, 'h) rcall"
  | R_flush "('a, 'h) rcall"
  | R_message cstring "('a, 'h) rcall"
  | R_read cstring int "cstring \<Rightarrow> ('a, 'h) rcall"
  | R_enter_passthrough "('a, 'h) rcall"
  | R_exit_passthrough "('a, 'h) rcall"
  | R_emit_image "cstring ptr" "cstring ptr" cstring cstring cstring "('a, 'h) rcall"

datatype parse_status = PARSE_NULL | PARSE_OK | PARSE_INCOMPLETE | PARSE_ERROR | PARSE_EOF

text \<open>
  The function pointers and variables that \<open>load_symbols\<close> fills in. \<open>'s\<close> is \<open>SEXP\<close>
  (\<open>None\<close> for a null one where R may return it). The optional entry points are options or
  flags. \<open>R_ParseVector\<close> returns its status through a pointer, and it may have stored one
  before it jumps: \<open>R_ParseVector_stored\<close> is that status (\<open>None\<close> if it stored none). R balances its own use of the protection stack, and \<open>R_ToplevelExec\<close> restores it
  after a jump, so a call leaves the stack as it found it.
\<close>

record ('s, 'h) r_api =
  Rf_mkString :: "cstring \<Rightarrow> 'h \<Rightarrow> 's \<times> 'h"
  R_ParseVector :: "'s \<Rightarrow> 'h \<Rightarrow> ('s ptr \<times> parse_status, 'h) rcall"
  R_ParseVector_stored :: "'s \<Rightarrow> 'h \<Rightarrow> parse_status option"
  R_tryEval :: "'s \<Rightarrow> 'h \<Rightarrow> ('s ptr \<times> int, 'h) rcall"
  Rf_PrintValue :: "'s \<Rightarrow> 'h \<Rightarrow> (unit, 'h) rcall"
  VECTOR_ELT_fn :: "'s \<Rightarrow> nat \<Rightarrow> 'h \<Rightarrow> 's"
  Rf_length_fn :: "'s \<Rightarrow> 'h \<Rightarrow> int"
  Rf_install :: "cstring \<Rightarrow> 'h \<Rightarrow> 's \<times> 'h"
  Rf_lang1 :: "'s \<Rightarrow> 'h \<Rightarrow> 's \<times> 'h"
  Rf_lang2 :: "'s \<Rightarrow> 's \<Rightarrow> 'h \<Rightarrow> 's \<times> 'h"
  Rf_asLogical :: "'s \<Rightarrow> 'h \<Rightarrow> int"
  Rf_asChar :: "'s \<Rightarrow> 'h \<Rightarrow> 's \<times> 'h"
  R_CHAR_fn :: "'s \<Rightarrow> 'h \<Rightarrow> cstring"
  Rf_defineVar :: "'s \<Rightarrow> 's \<Rightarrow> 's \<Rightarrow> 'h \<Rightarrow> 'h"
  Rf_findVar :: "'s \<Rightarrow> 's \<Rightarrow> 'h \<Rightarrow> 's"
  R_GlobalEnv :: 's
  R_NilValue :: 's
  R_UnboundValue :: 's
  withVisible_sym :: 's
  raoui_after_top_level_sym :: 's
  R_ToplevelExec_fn :: bool
  R_ProcessEvents_fn :: "('h \<Rightarrow> (unit, 'h) rcall) option"
  R_checkActivity_fn :: "('h \<Rightarrow> bool) option"
  R_runHandlers_fn :: "('h \<Rightarrow> (unit, 'h) rcall) option"
  R_InputHandlers_ptr :: bool

subsection \<open>The globals\<close>

text \<open>The console callback currently installed in \<open>*ptr_R_WriteConsoleEx\<close>.\<close>

datatype console_cb = Cb_none | Cb_init_capture | Cb_write_console_ex | Cb_runr_capture

text \<open>
  What the other threads do while the worker thread runs: the frontend's calls into the bridge,
  each an atomic action (a critical section or an atomic store).
  \<open>rffi_submit_readline_input\<close> is two of them, and so is \<open>rffi_run_r_sandboxed\<close>,
  whose second half waits for the worker. \<open>Ui_pop b\<close> carries the block that
  \<open>malloc\<close> gave the pop.
\<close>

datatype ui_action =
    Ui_submit cstring
  | Ui_request_completions cstring int
  | Ui_request_columns cstring
  | Ui_interrupt
  | Ui_pop "byte list ptr"
  | Ui_has_data
  | Ui_reset
  | Ui_signal_passthrough
  | Ui_store_readline cstring
  | Ui_open_readline
  | Ui_post_runr cstring
  | Ui_set_shutdown

text \<open>
  How the kernel answers a write of the sandboxed child to its capture pipe: the number of bytes
  it can place before a signal interrupts it, or \<open>SIGPIPE\<close>, because the reader is gone.
\<close>

datatype pipe_answer = Pipe_took nat | Pipe_broken

text \<open>
  The globals. Some fields are not C variables: \<open>protect_depth\<close> is the height of R's
  protection stack and \<open>r_heap\<close> is R's own state; \<open>pushed\<close> and \<open>frontend_log\<close> are history
  variables, which no function reads: the messages handed to \<open>rb_push\<close> so far, and what
  \<open>rb_pop\<close> has handed to OCaml so far; \<open>runr_pipe\<close> holds the bytes written to the capture pipe,
  and \<open>pipe_answers\<close> what the kernel answers to the coming writes (after them every write is
  complete). \<open>ui\<close> is the schedule of the other threads: at
  each point where the worker touches shared state it lets the next batch of actions happen, so
  that the schedules together are all the interleavings.
\<close>

record 'h bridge =
  g_rb :: ring_buffer
  passthrough_gate :: bool
  readline_gate :: bool
  readline_input_buf :: "cstring ptr"
  pending_cmd :: "cstring ptr"
  pending_completion_line :: "cstring ptr"
  pending_completion_pos :: int
  pending_column_object :: "cstring ptr"
  shutdown_flag :: bool
  pending_runr :: "cstring ptr"
  runr_result :: "cstring ptr"
  runr_done :: bool
  R_interrupts_pending :: "int ptr"
  write_console :: console_cb
  g_runr_pipe_fd :: int
  runr_pipe :: "byte list"
  pipe_answers :: "pipe_answer list"
  init_output_buf :: "byte list ptr"
  init_output_len :: nat
  init_output_cap :: nat
  protect_depth :: nat
  r_heap :: 'h
  pushed :: "msg list"
  frontend_log :: "(int \<times> int \<times> byte list) list"
  ui :: "ui_action list list"

subsection \<open>Shared helpers\<close>

text \<open>The call \<open>rb_push(&g_rb, kind, 0, data, len)\<close>, its result ignored as everywhere in
  the file. The payload is the \<open>len\<close> bytes at \<open>data\<close>; \<open>pushed\<close> records the message.\<close>

definition push :: "byte \<Rightarrow> byte list ptr \<Rightarrow> u32 \<Rightarrow> 'h bridge \<Rightarrow> 'h bridge option" where
  "push kind data len s = do {
     (_, p) \<leftarrow> rb_push (Some (g_rb s)) kind 0 data len;
     rb \<leftarrow> p;
     Some (s\<lparr>g_rb := rb, pushed := pushed s @ [Msg kind 0 (take (unat len) (block_of data))]\<rparr>)
   }"

text \<open>Pushing a C string \<open>x\<close> with \<open>(uint32_t)strlen(x)\<close>.\<close>

definition push_str :: "byte \<Rightarrow> cstring \<Rightarrow> 'h bridge \<Rightarrow> 'h bridge option" where
  "push_str kind x s = push kind (Some x) (word_of_nat (length x)) s"

text \<open>\<open>Rf_protect\<close> and \<open>Rf_unprotect\<close>: popping more than is there is an error in R.\<close>

definition protect :: "'h bridge \<Rightarrow> 'h bridge" where
  "protect s = s\<lparr>protect_depth := Suc (protect_depth s)\<rparr>"

definition unprotect :: "nat \<Rightarrow> 'h bridge \<Rightarrow> 'h bridge option" where
  "unprotect n s =
     (if n \<le> protect_depth s then Some (s\<lparr>protect_depth := protect_depth s - n\<rparr>) else None)"

text \<open>The part of a text that its 32-bit length announces.\<close>

definition wire :: "byte list \<Rightarrow> byte list" where
  "wire x = take (length x mod 2 ^ 32) x"

lemma wire_small [simp]: "length x < 2 ^ 32 \<Longrightarrow> wire x = x"
  by (simp add: wire_def)

lemma push_ok:
  assumes "rb_ok (g_rb s)" "take (length payload) (block_of data) = payload" "length payload < 2 ^ 32"
    "len = word_of_nat (length payload)"
  obtains rb where "push kind data len s = Some (s\<lparr>g_rb := rb, pushed := pushed s @ [Msg kind 0 payload]\<rparr>)" "rb_ok rb"
    "rcap rb = rcap (g_rb s)"
    "rb_msgs rb = spec_push (rcap (g_rb s)) (Msg kind 0 payload) (rb_msgs (g_rb s))"
proof -
  have "unat len = length payload" using assms(3,4) by (simp add: unat_u32)
  with that show thesis
    using rb_push_refines [OF assms(1,3,2), of kind 0] assms(2,4) by (auto simp: push_def)
qed

lemma push_str_ok:
  assumes "rb_ok (g_rb s)"
  obtains rb where "push_str kind x s = Some (s\<lparr>g_rb := rb, pushed := pushed s @ [Msg kind 0 (wire x)]\<rparr>)" "rb_ok rb"
    "rcap rb = rcap (g_rb s)"
    "rb_msgs rb = spec_push (rcap (g_rb s)) (Msg kind 0 (wire x)) (rb_msgs (g_rb s))"
proof -
  have l: "length x mod 2 ^ 32 \<le> length x" "length x mod 2 ^ 32 < 2 ^ 32" by simp_all
  then have len: "length (wire x) = length x mod 2 ^ 32" by (simp add: wire_def)
  have "word_of_nat (length x) = (word_of_nat (length (wire x)) :: u32)"
    unfolding len by (simp add: word_of_nat_eq_iff take_bit_eq_mod)
  moreover have "take (length (wire x)) (block_of (Some x)) = wire x" using len by (simp add: wire_def)
  ultimately show thesis
    using push_ok [OF assms, of "wire x" "Some x" "word_of_nat (length x)" kind] len l that
    by (auto simp: push_str_def)
qed

end
