(* ===== verification/Bridge_Api.thy ===== *)
theory Bridge_Api
  imports Bridge_State
begin

section \<open>The bridge's interface to the frontend\<close>

text \<open>
  The functions of \<open>c_ffi/r_bridge.h\<close> that the frontend's threads call
  (\<open>c_ffi/load_r.c\<close>, sections ``Public API'' and ``Ring buffer accessors'', and the two gate
  functions), the OCaml stubs over them (\<open>lib/rffi_stubs.c\<close>), and the interference of those
  threads with the worker.
\<close>

subsection \<open>Public API\<close>

text \<open>Strings arrive as C strings; \<open>strdup\<close> copies them, and the old value is freed.\<close>

definition rffi_submit :: "cstring \<Rightarrow> 'h bridge \<Rightarrow> 'h bridge" where
  "rffi_submit code s = s\<lparr>pending_cmd := Some code\<rparr>"

definition rffi_request_completions :: "cstring \<Rightarrow> int \<Rightarrow> 'h bridge \<Rightarrow> 'h bridge" where
  "rffi_request_completions line cursor_pos s =
     s\<lparr>pending_completion_line := Some line, pending_completion_pos := cursor_pos,
       pending_column_object := None\<rparr>"

definition rffi_request_columns :: "cstring \<Rightarrow> 'h bridge \<Rightarrow> 'h bridge" where
  "rffi_request_columns object_name s =
     s\<lparr>pending_column_object := Some object_name, pending_completion_line := None\<rparr>"

definition rffi_interrupt :: "'h bridge \<Rightarrow> int \<times> 'h bridge" where
  "rffi_interrupt s =
     (if R_interrupts_pending s = None then (-1, s) else (0, s\<lparr>R_interrupts_pending := Some 1\<rparr>))"

definition rffi_signal_passthrough :: "'h bridge \<Rightarrow> 'h bridge" where
  "rffi_signal_passthrough s = s\<lparr>passthrough_gate := True\<rparr>"

text \<open>\<open>rffi_submit_readline_input\<close>: the critical section, then the atomic store.\<close>

definition store_readline_input :: "cstring \<Rightarrow> 'h bridge \<Rightarrow> 'h bridge" where
  "store_readline_input input s = s\<lparr>readline_input_buf := Some input\<rparr>"

definition open_readline_gate :: "'h bridge \<Rightarrow> 'h bridge" where
  "open_readline_gate s = s\<lparr>readline_gate := True\<rparr>"

definition rffi_submit_readline_input :: "cstring \<Rightarrow> 'h bridge \<Rightarrow> 'h bridge" where
  "rffi_submit_readline_input input s = open_readline_gate (store_readline_input input s)"

text \<open>
  \<open>rffi_run_r_sandboxed\<close>: what it does up to its wait, and what it does once the wait is over.
  \<open>runr_collect\<close> is \<open>None\<close> while the caller still waits.
\<close>

definition runr_post :: "cstring \<Rightarrow> 'h bridge \<Rightarrow> 'h bridge" where
  "runr_post code s = s\<lparr>pending_runr := Some code, runr_done := False, runr_result := None\<rparr>"

definition runr_collect :: "'h bridge \<Rightarrow> (cstring ptr \<times> 'h bridge) option" where
  "runr_collect s = (if runr_done s then Some (runr_result s, s\<lparr>runr_result := None\<rparr>) else None)"

definition rffi_take_init_output :: "'h bridge \<Rightarrow> byte list ptr \<times> 'h bridge" where
  "rffi_take_init_output s =
     (init_output_buf s, s\<lparr>init_output_buf := None, init_output_len := 0, init_output_cap := 0\<rparr>)"

subsection \<open>Ring buffer accessors\<close>

definition rffi_rb_has_data :: "'h bridge \<Rightarrow> (bool \<times> 'h bridge) option" where
  "rffi_rb_has_data s = do {
     (r, p) \<leftarrow> rb_has_data (Some (g_rb s)); rb \<leftarrow> p; Some (r, s\<lparr>g_rb := rb\<rparr>) }"

definition rffi_rb_pop :: "byte list \<Rightarrow> u32 \<Rightarrow> 'h bridge \<Rightarrow> (int \<times> pop_out \<times> 'h bridge) option" where
  "rffi_rb_pop out out_cap s = do {
     (rc, r, p) \<leftarrow> rb_pop (Some (g_rb s)) out out_cap; rb \<leftarrow> p; Some (rc, r, s\<lparr>g_rb := rb\<rparr>) }"

definition rffi_rb_dropped_messages :: "'h bridge \<Rightarrow> (u64 \<times> 'h bridge) option" where
  "rffi_rb_dropped_messages s = do {
     (r, p) \<leftarrow> rb_dropped_messages (Some (g_rb s)); rb \<leftarrow> p; Some (r, s\<lparr>g_rb := rb\<rparr>) }"

definition rffi_rb_dropped_bytes :: "'h bridge \<Rightarrow> (u64 \<times> 'h bridge) option" where
  "rffi_rb_dropped_bytes s = do {
     (r, p) \<leftarrow> rb_dropped_bytes (Some (g_rb s)); rb \<leftarrow> p; Some (r, s\<lparr>g_rb := rb\<rparr>) }"

definition rffi_rb_reset :: "'h bridge \<Rightarrow> 'h bridge option" where
  "rffi_rb_reset s = do { p \<leftarrow> rb_reset (Some (g_rb s)); rb \<leftarrow> p; Some (s\<lparr>g_rb := rb\<rparr>) }"

subsection \<open>OCaml stubs\<close>

text \<open>
  An OCaml string may hold NUL bytes; the stubs hand its bytes to C string functions, which see
  the part before the first one. \<open>Int_val\<close> yields a C \<open>int\<close>. The stubs for
  initialisation, sandboxed evaluation and shutdown are with the functions they call.
\<close>

definition CAML_RFFI_POP_BUF_CAP :: nat where "CAML_RFFI_POP_BUF_CAP = 1024 * 1024"

definition caml_rffi_submit :: "byte list \<Rightarrow> 'h bridge \<Rightarrow> 'h bridge" where
  "caml_rffi_submit v_code s = rffi_submit (until_nul v_code) s"

definition caml_rffi_take_init_output :: "'h bridge \<Rightarrow> (byte list \<times> 'h bridge) option" where
  "caml_rffi_take_init_output s =
     (case rffi_take_init_output s of
        (None, s') \<Rightarrow> Some ([], s')
      | (Some out, s') \<Rightarrow> do { v \<leftarrow> c_str out; Some (v, s') })"

definition caml_rffi_interrupt :: "'h bridge \<Rightarrow> int \<times> 'h bridge" where
  "caml_rffi_interrupt s = rffi_interrupt s"

definition caml_rffi_rb_has_data :: "'h bridge \<Rightarrow> (bool \<times> 'h bridge) option" where
  "caml_rffi_rb_has_data s = rffi_rb_has_data s"

text \<open>
  The pop: \<open>buf\<close> is what \<open>malloc\<close> returned. \<open>out_len\<close>, \<open>kind\<close> and \<open>flags\<close> are read
  only when \<open>rb_pop\<close> has written them.
\<close>

definition caml_rffi_rb_pop :: "byte list ptr \<Rightarrow> 'h bridge \<Rightarrow> ((int \<times> int \<times> byte list) option \<times> 'h bridge) option" where
  "caml_rffi_rb_pop buf s =
     (case buf of None \<Rightarrow> Some (None, s)
      | Some b \<Rightarrow> do {
          (rc, r, s') \<leftarrow> rffi_rb_pop b (word_of_nat CAML_RFFI_POP_BUF_CAP) s;
          (if rc = RB_EMPTY \<or> rc = RB_ERROR then Some (None, s')
           else do {
             n \<leftarrow> pop_len r;
             payload \<leftarrow> memcpy (replicate (unat n) 0) 0 (pop_buf r) 0 (unat n);
             k \<leftarrow> pop_kind r;
             f \<leftarrow> pop_flags r;
             Some (Some (uint k, uint f, payload), s')
           })
        })"

definition caml_rffi_rb_reset :: "'h bridge \<Rightarrow> 'h bridge option" where
  "caml_rffi_rb_reset s = rffi_rb_reset s"

definition caml_rffi_signal_passthrough :: "'h bridge \<Rightarrow> 'h bridge" where
  "caml_rffi_signal_passthrough s = rffi_signal_passthrough s"

definition caml_rffi_request_completions :: "byte list \<Rightarrow> int \<Rightarrow> 'h bridge \<Rightarrow> 'h bridge" where
  "caml_rffi_request_completions v_line v_cursor_pos s =
     rffi_request_completions (until_nul v_line) (sint (word_of_int v_cursor_pos :: 32 word)) s"

definition caml_rffi_request_columns :: "byte list \<Rightarrow> 'h bridge \<Rightarrow> 'h bridge" where
  "caml_rffi_request_columns v_object_name s = rffi_request_columns (until_nul v_object_name) s"

definition caml_rffi_submit_readline_input :: "byte list \<Rightarrow> 'h bridge \<Rightarrow> 'h bridge" where
  "caml_rffi_submit_readline_input v_input s = rffi_submit_readline_input (until_nul v_input) s"

subsection \<open>Interference\<close>

text \<open>A pop also records what OCaml got.\<close>

fun ui_step :: "ui_action \<Rightarrow> 'h bridge \<Rightarrow> 'h bridge option" where
  "ui_step (Ui_submit code) s = Some (caml_rffi_submit code s)"
| "ui_step (Ui_request_completions line pos) s = Some (caml_rffi_request_completions line pos s)"
| "ui_step (Ui_request_columns name) s = Some (caml_rffi_request_columns name s)"
| "ui_step Ui_interrupt s = Some (snd (caml_rffi_interrupt s))"
| "ui_step (Ui_pop b) s = do {
     (r, s') \<leftarrow> caml_rffi_rb_pop b s;
     Some (case r of None \<Rightarrow> s' | Some v \<Rightarrow> s'\<lparr>frontend_log := frontend_log s' @ [v]\<rparr>) }"
| "ui_step Ui_has_data s = map_option snd (caml_rffi_rb_has_data s)"
| "ui_step Ui_reset s = caml_rffi_rb_reset s"
| "ui_step Ui_signal_passthrough s = Some (caml_rffi_signal_passthrough s)"
| "ui_step (Ui_store_readline input) s = Some (store_readline_input (until_nul input) s)"
| "ui_step Ui_open_readline s = Some (open_readline_gate s)"
| "ui_step (Ui_post_runr code) s = Some (runr_post (until_nul code) s)"
| "ui_step Ui_set_shutdown s = Some (s\<lparr>shutdown_flag := True\<rparr>)"

fun ui_steps :: "ui_action list \<Rightarrow> 'h bridge \<Rightarrow> 'h bridge option" where
  "ui_steps [] s = Some s"
| "ui_steps (a # as) s = Option.bind (ui_step a s) (ui_steps as)"

text \<open>The worker is at a point where other threads can run: the next batch of the schedule
  happens.\<close>

definition interfere :: "'h bridge \<Rightarrow> 'h bridge option" where
  "interfere s = (case ui s of [] \<Rightarrow> Some s | b # bs \<Rightarrow> ui_steps b (s\<lparr>ui := bs\<rparr>))"

end
