(* ===== verification/Bridge_Stream.thy ===== *)
theory Bridge_Stream
  imports Bridge_Api
begin

section \<open>The message stream between worker and frontend\<close>

text \<open>
  What the frontend has received followed by what is still in the ring is the stream of the
  bridge. The frontend's actions do not change it; a push extends it. \<open>extends s ms s'\<close> says
  that the worker got from \<open>s\<close> to \<open>s'\<close> by pushing exactly \<open>ms\<close> (the history \<open>pushed\<close>
  determines it), with the other threads interfering; the stream grew by \<open>ms\<close>, less the oldest
  messages if not all fit the ring.
\<close>

definition wire_msg :: "msg \<Rightarrow> int \<times> int \<times> byte list" where
  "wire_msg m = (uint (mkind m), uint (mflags m), mpayload m)"

lemma wire_msg_simps [simp]:
  "fst (wire_msg m) = uint (mkind m)" "snd (snd (wire_msg m)) = mpayload m"
  by (simp_all add: wire_msg_def)

definition stream :: "'h bridge \<Rightarrow> (int \<times> int \<times> byte list) list" where
  "stream s = frontend_log s @ map wire_msg (rb_msgs (g_rb s))"

text \<open>
  The frontend's side of the contract: a pop hands over the block it allocated, a line of
  input is shorter than two gigabytes, and \<open>rb_reset\<close>, which the OCaml code binds but never
  calls, does not happen.
\<close>

definition line_ok :: "cstring \<Rightarrow> bool" where
  "line_ok x \<longleftrightarrow> 0 \<notin> set x \<and> length x + 2 < 2 ^ 31"

fun ui_ok :: "ui_action \<Rightarrow> bool" where
  "ui_ok (Ui_pop (Some b)) = (length b = CAML_RFFI_POP_BUF_CAP)"
| "ui_ok (Ui_store_readline x) = line_ok (until_nul x)"
| "ui_ok Ui_reset = False"
| "ui_ok _ = True"

definition live :: "'h bridge \<Rightarrow> bool" where
  "live s \<longleftrightarrow> rb_ok (g_rb s) \<and> rcap (g_rb s) = CAML_RFFI_POP_BUF_CAP \<and>
     (\<forall>b \<in> set (ui s). \<forall>a \<in> set b. ui_ok a) \<and> pred_option line_ok (readline_input_buf s)"

text \<open>The part of the state that only the worker thread writes.\<close>

definition steady :: "'h bridge \<Rightarrow> nat \<times> console_cb \<times> int \<times> byte list \<times> byte list ptr \<times> nat \<times> nat" where
  "steady s = (protect_depth s, write_console s, g_runr_pipe_fd s, runr_pipe s,
     init_output_buf s, init_output_len s, init_output_cap s)"

definition own :: "'h bridge \<Rightarrow> 'h \<times> nat \<times> console_cb \<times> int \<times> byte list \<times> byte list ptr \<times> nat \<times> nat" where
  "own s = (r_heap s, steady s)"

definition cap :: nat where "cap = CAML_RFFI_POP_BUF_CAP"

definition extends :: "'h bridge \<Rightarrow> msg list \<Rightarrow> 'h bridge \<Rightarrow> bool" where
  "extends s ms s' \<longleftrightarrow> live s' \<and> pushed s' = pushed s @ ms \<and>
     subseq (stream s') (stream s @ map (wire_msg \<circ> stored cap) ms) \<and>
     (queue_bytes (rb_msgs (g_rb s)) + queue_bytes ms \<le> cap \<longrightarrow>
        stream s' = stream s @ map wire_msg ms \<and>
        queue_bytes (rb_msgs (g_rb s')) \<le> queue_bytes (rb_msgs (g_rb s)) + queue_bytes ms)"

lemma liveD: "live s \<Longrightarrow> rb_ok (g_rb s)" "live s \<Longrightarrow> rcap (g_rb s) = cap"
  by (simp_all add: live_def cap_def)

lemma extends_refl: "live s \<Longrightarrow> extends s [] s"
  by (simp add: extends_def)

lemma extends_live: "extends s ms s' \<Longrightarrow> live s'"
  by (simp add: extends_def)

lemma extends_trans:
  assumes "extends s ms s'" "extends s' ns s''"
  shows "extends s (ms @ ns) s''"
proof -
  let ?w = "map (wire_msg \<circ> stored cap)"
  have "subseq (stream s' @ ?w ns) ((stream s @ ?w ms) @ ?w ns)"
    using assms(1) unfolding extends_def by (blast intro: list_emb_append_mono)
  then have "subseq (stream s'') (stream s @ ?w (ms @ ns))"
    using assms(2) unfolding extends_def by (auto intro: subseq_order.order_trans)
  with assms show ?thesis by (auto simp: extends_def)
qed

text \<open>Fields outside the ring, the histories and the schedule do not matter.\<close>

lemma extends_cong:
  assumes "g_rb t = g_rb s'" "frontend_log t = frontend_log s'" "ui t = ui s'"
    "readline_input_buf t = readline_input_buf s'" "pushed t = pushed s'"
  shows "extends s ms t = extends s ms s'"
  using assms by (simp add: extends_def live_def stream_def)

lemma extends_cong_left:
  assumes "g_rb t = g_rb s" "frontend_log t = frontend_log s" "pushed t = pushed s"
  shows "extends t ms s' = extends s ms s'"
  using assms by (simp add: extends_def stream_def)

subsection \<open>One push\<close>

lemma spec_push_stream:
  "subseq (log @ map wire_msg (spec_push cap m q)) (log @ map wire_msg q @ [wire_msg (stored cap m)])"
proof -
  have "suffix (spec_push cap m q) (q @ [stored cap m])" by (rule spec_push_suffix)
  then have "suffix (map wire_msg (spec_push cap m q)) (map wire_msg q @ [wire_msg (stored cap m)])"
    by (auto simp: suffix_def) (metis list.simps(8,9) map_append)
  then show ?thesis by (intro subseq_append' [THEN iffD2] suffix_imp_subseq)
qed

lemma extends_push:
  assumes "live s" "rb_ok rb" "rcap rb = rcap (g_rb s)"
    "rb_msgs rb = spec_push (rcap (g_rb s)) m (rb_msgs (g_rb s))"
  shows "extends s [m] (s\<lparr>g_rb := rb, pushed := pushed s @ [m]\<rparr>)"
    and "last (stream (s\<lparr>g_rb := rb, pushed := pushed s @ [m]\<rparr>)) = wire_msg (stored cap m)" "stream (s\<lparr>g_rb := rb, pushed := pushed s @ [m]\<rparr>) \<noteq> []"
proof -
  have c: "rcap (g_rb s) = cap" using assms(1) by (rule liveD)
  have "subseq (stream (s\<lparr>g_rb := rb, pushed := pushed s @ [m]\<rparr>)) (stream s @ map (wire_msg \<circ> stored cap) [m])"
    using spec_push_stream [of "frontend_log s" m "rb_msgs (g_rb s)"] assms(4) c by (simp add: stream_def)
  moreover have "live (s\<lparr>g_rb := rb, pushed := pushed s @ [m]\<rparr>)" using assms by (simp add: live_def)
  ultimately show "extends s [m] (s\<lparr>g_rb := rb, pushed := pushed s @ [m]\<rparr>)"
    using assms(4) c by (auto simp: extends_def stream_def spec_push_fits)
  have "spec_push cap m (rb_msgs (g_rb s)) \<noteq> []" "last (spec_push cap m (rb_msgs (g_rb s))) = stored cap m"
    using spec_push_last by auto
  then show "last (stream (s\<lparr>g_rb := rb, pushed := pushed s @ [m]\<rparr>)) = wire_msg (stored cap m)" "stream (s\<lparr>g_rb := rb, pushed := pushed s @ [m]\<rparr>) \<noteq> []"
    using assms(4) c by (simp_all add: stream_def last_map)
qed

lemma push_str_extends:
  assumes "live s"
  obtains s' where "push_str kind x s = Some s'" "extends s [Msg kind 0 (wire x)] s'" "own s' = own s"
    "stream s' \<noteq> []" "last (stream s') = wire_msg (stored cap (Msg kind 0 (wire x)))"
    "s' = s\<lparr>g_rb := g_rb s', pushed := pushed s'\<rparr>"
proof -
  obtain rb where rb: "push_str kind x s = Some (s\<lparr>g_rb := rb, pushed := pushed s @ [Msg kind 0 (wire x)]\<rparr>)" "rb_ok rb" "rcap rb = rcap (g_rb s)"
    "rb_msgs rb = spec_push (rcap (g_rb s)) (Msg kind 0 (wire x)) (rb_msgs (g_rb s))"
    using push_str_ok [OF liveD(1) [OF assms]] by blast
  with extends_push [OF assms rb(2-4)] that [of "s\<lparr>g_rb := rb, pushed := pushed s @ [Msg kind 0 (wire x)]\<rparr>"] show thesis by (simp add: own_def steady_def)
qed

text \<open>A push without payload, \<open>rb_push(&g_rb, kind, 0, NULL, 0)\<close> or with the literal
  \<open>""\<close>.\<close>

lemma push_empty_extends:
  assumes "live s"
  obtains s' where "push kind data 0 s = Some s'" "extends s [Msg kind 0 []] s'" "own s' = own s"
    "stream s' \<noteq> []" "last (stream s') = wire_msg (Msg kind 0 [])" "s' = s\<lparr>g_rb := g_rb s', pushed := pushed s'\<rparr>"
proof -
  obtain rb where rb: "push kind data 0 s = Some (s\<lparr>g_rb := rb, pushed := pushed s @ [Msg kind 0 []]\<rparr>)" "rb_ok rb" "rcap rb = rcap (g_rb s)"
    "rb_msgs rb = spec_push (rcap (g_rb s)) (Msg kind 0 []) (rb_msgs (g_rb s))"
    using push_ok [of s "[]" data 0 kind, OF liveD(1) [OF assms]] by auto
  have "stored cap (Msg kind 0 []) = Msg kind 0 []"
    by (simp add: stored_def fsize_def cap_def CAML_RFFI_POP_BUF_CAP_def RB_FRAME_HEADER_SIZE_def)
  with rb extends_push [OF assms rb(2-4)] that [of "s\<lparr>g_rb := rb, pushed := pushed s @ [Msg kind 0 []]\<rparr>"] show thesis by (simp add: own_def steady_def)
qed

subsection \<open>The frontend's actions\<close>

text \<open>The buffer of the pop stub is as large as the ring, so a pop never truncates.\<close>

lemma caml_rffi_rb_pop_ok:
  assumes "rb_ok (g_rb s)" "rcap (g_rb s) = CAML_RFFI_POP_BUF_CAP" "length b = CAML_RFFI_POP_BUF_CAP"
  obtains rb where "caml_rffi_rb_pop (Some b) s
      = Some (case rb_msgs (g_rb s) of [] \<Rightarrow> None | m # _ \<Rightarrow> Some (wire_msg m), s\<lparr>g_rb := rb\<rparr>)"
    "rb_ok rb" "rcap rb = rcap (g_rb s)" "rb_msgs rb = tl (rb_msgs (g_rb s))"
proof (cases "rb_msgs (g_rb s)")
  case Nil
  then have "caml_rffi_rb_pop (Some b) s = Some (None, s\<lparr>g_rb := g_rb s\<rparr>)"
    using rb_pop_empty [OF assms(1)] by (simp add: caml_rffi_rb_pop_def rffi_rb_pop_def rb_code_defs)
  with Nil that [of "g_rb s"] assms show thesis by simp
next
  case (Cons m q)
  have fr: "rb_framed (g_rb s)" using assms(1) by (simp add: rb_ok_def)
  have "fsize m \<le> rcap (g_rb s)" using rb_framedD [OF fr] Cons by (auto elim!: rb_geomE)
  then have le: "length (mpayload m) \<le> CAML_RFFI_POP_BUF_CAP" using assms(2) by (simp add: fsize_def)
  have ucap: "unat (word_of_nat CAML_RFFI_POP_BUF_CAP :: u32) = CAML_RFFI_POP_BUF_CAP"
    and ulen: "unat (word_of_nat (length (mpayload m)) :: u32) = length (mpayload m)"
    using le by (auto simp: CAML_RFFI_POP_BUF_CAP_def intro!: unat_u32)
  obtain rb out where rb: "rb_pop (Some (g_rb s)) b (word_of_nat CAML_RFFI_POP_BUF_CAP) =
      Some (RB_OK, \<lparr>pop_kind = Some (mkind m), pop_flags = Some (mflags m),
        pop_len = Some (word_of_nat (length (mpayload m))), pop_buf = mpayload m @ out\<rparr>, Some rb)"
    "rb_ok rb" "rb_msgs rb = q" "rcap rb = rcap (g_rb s)"
    using rb_pop_refines [OF assms(1) Cons, of "word_of_nat CAML_RFFI_POP_BUF_CAP" b] le assms(3) ucap
    by (auto simp: min_def)
  then have "caml_rffi_rb_pop (Some b) s = Some (Some (wire_msg m), s\<lparr>g_rb := rb\<rparr>)"
    using ulen by (simp add: caml_rffi_rb_pop_def rffi_rb_pop_def rb_code_defs memcpy_ok wire_msg_def)
  with rb Cons that [of rb] show thesis by simp
qed

lemma ui_step_extends:
  assumes "live s" "ui_ok a"
  shows "\<exists>s'. ui_step a s = Some s' \<and> extends s [] s' \<and> own s' = own s \<and> ui s' = ui s"
proof (cases a)
  case (Ui_pop p)
  show ?thesis
  proof (cases p)
    case None
    with Ui_pop assms extends_refl show ?thesis by (simp add: caml_rffi_rb_pop_def)
  next
    case (Some b)
    obtain rb where rb: "caml_rffi_rb_pop (Some b) s
      = Some (case rb_msgs (g_rb s) of [] \<Rightarrow> None | m # _ \<Rightarrow> Some (wire_msg m), s\<lparr>g_rb := rb\<rparr>)"
      "rb_ok rb" "rcap rb = rcap (g_rb s)" "rb_msgs rb = tl (rb_msgs (g_rb s))"
      by (rule caml_rffi_rb_pop_ok [of s b]) (use assms Ui_pop Some in \<open>auto simp: live_def\<close>)
    with Ui_pop Some assms show ?thesis
      by (cases "rb_msgs (g_rb s)") (auto simp: extends_def live_def stream_def own_def steady_def)
  qed
next
  case Ui_has_data
  have "ui_step a s = Some s"
    using rb_has_data_ok [OF liveD(1) [OF assms(1)]]
    by (simp add: Ui_has_data caml_rffi_rb_has_data_def rffi_rb_has_data_def)
  with extends_refl [OF assms(1)] show ?thesis by simp
qed (use assms in \<open>auto simp: caml_rffi_submit_def rffi_submit_def caml_rffi_request_completions_def
    rffi_request_completions_def caml_rffi_request_columns_def rffi_request_columns_def
    caml_rffi_interrupt_def rffi_interrupt_def caml_rffi_signal_passthrough_def
    rffi_signal_passthrough_def store_readline_input_def open_readline_gate_def runr_post_def
    extends_def live_def stream_def own_def steady_def\<close>)

lemma ui_steps_extends:
  "live s \<Longrightarrow> \<forall>a \<in> set as. ui_ok a \<Longrightarrow>
   \<exists>s'. ui_steps as s = Some s' \<and> extends s [] s' \<and> own s' = own s \<and> ui s' = ui s"
proof (induction as arbitrary: s)
  case Nil
  then show ?case by (simp add: extends_refl)
next
  case (Cons a as)
  then obtain s1 where s1: "ui_step a s = Some s1" "extends s [] s1" "own s1 = own s" "ui s1 = ui s"
    using ui_step_extends [of s a] by auto
  with Cons obtain s2 where "ui_steps as s1 = Some s2" "extends s1 [] s2" "own s2 = own s1" "ui s2 = ui s1"
    by (metis extends_live list.set_intros(2))
  with s1 extends_trans [of s "[]" s1 "[]" s2] show ?case by simp
qed

lemma interfere_extends:
  assumes "live s"
  obtains s' where "interfere s = Some s'" "extends s [] s'" "own s' = own s" "ui s' = tl (ui s)"
proof (cases "ui s")
  case Nil
  with that [of s] extends_refl [OF assms] show thesis by (simp add: interfere_def)
next
  case (Cons b bs)
  let ?s = "s\<lparr>ui := bs\<rparr>"
  have "live ?s" "\<forall>a \<in> set b. ui_ok a" using assms Cons by (auto simp: live_def)
  then obtain s' where "ui_steps b ?s = Some s'" "extends ?s [] s'" "own s' = own ?s" "ui s' = bs"
    using ui_steps_extends [of ?s b] by auto
  with Cons that [of s'] show thesis
    using extends_cong_left [of ?s s] by (simp add: interfere_def own_def steady_def)
qed

subsection \<open>A fresh bridge\<close>

text \<open>The globals as \<open>rffi_start\<close> leaves them, with nothing pending, for a schedule of the
  frontend.\<close>

definition fresh_bridge :: "ui_action list list \<Rightarrow> unit bridge" where
  "fresh_bridge us = \<lparr>
     g_rb = \<lparr>rbuf = Some (replicate CAML_RFFI_POP_BUF_CAP 0), rcap = CAML_RFFI_POP_BUF_CAP, rhead = 0, rtail = 0,
       rused = 0, rdropped_messages = 0, rdropped_bytes = 0, rlock = Mutex_free\<rparr>,
     passthrough_gate = False, readline_gate = False, readline_input_buf = None, pending_cmd = None,
     pending_completion_line = None, pending_completion_pos = 0, pending_column_object = None,
     shutdown_flag = False, pending_runr = None, runr_result = None, runr_done = False,
     R_interrupts_pending = Some 0, write_console = Cb_write_console_ex, g_runr_pipe_fd = -1, runr_pipe = [], pipe_answers = [],
     init_output_buf = None, init_output_len = 0, init_output_cap = 0,
     protect_depth = 0, r_heap = (), pushed = [], frontend_log = [], ui = us\<rparr>"

lemma fresh_bridge_live:
  assumes "\<forall>b \<in> set us. \<forall>a \<in> set b. ui_ok a"
  shows "live (fresh_bridge us)" "rb_msgs (g_rb (fresh_bridge us)) = []"
  using rb_geom_empty [of "g_rb (fresh_bridge us)" "replicate CAML_RFFI_POP_BUF_CAP 0"] assms
  by (simp_all add: fresh_bridge_def live_def CAML_RFFI_POP_BUF_CAP_def RB_FRAME_HEADER_SIZE_def)

lemma fresh_bridge_simps [simp]:
  "write_console (fresh_bridge us) = Cb_write_console_ex" "ui (fresh_bridge us) = us"
  "protect_depth (fresh_bridge us) = 0" "R_interrupts_pending (fresh_bridge us) = Some 0"
  "readline_gate (fresh_bridge us) = False" "readline_input_buf (fresh_bridge us) = None"
  "frontend_log (fresh_bridge us) = []" "rcap (g_rb (fresh_bridge us)) = CAML_RFFI_POP_BUF_CAP"
  "passthrough_gate (fresh_bridge us) = False" "pending_cmd (fresh_bridge us) = None"
  "pushed (fresh_bridge us) = []" "pipe_answers (fresh_bridge us) = []"
  by (simp_all add: fresh_bridge_def)

subsection \<open>Property\<close>

text \<open>C30: On a bridge whose ring has the capacity \<open>rffi_start\<close> gives it, the OCaml pop stub
  returns the oldest message of the ring complete (kind, flags and every payload byte), or
  \<open>None\<close> if the ring is empty; its one-megabyte buffer is never too small, so no payload is
  ever cut on the way to OCaml.\<close>

theorem pop_stub_exact:
  assumes "live s" "length b = CAML_RFFI_POP_BUF_CAP"
  shows "\<exists>rb. caml_rffi_rb_pop (Some b) s
      = Some (case rb_msgs (g_rb s) of [] \<Rightarrow> None | m # _ \<Rightarrow> Some (uint (mkind m), uint (mflags m), mpayload m),
          s\<lparr>g_rb := rb\<rparr>) \<and>
    rb_ok rb \<and> rb_msgs rb = tl (rb_msgs (g_rb s))"
proof -
  have "rb_ok (g_rb s)" "rcap (g_rb s) = CAML_RFFI_POP_BUF_CAP" using assms(1) by (auto simp: live_def)
  from caml_rffi_rb_pop_ok [OF this assms(2)] show ?thesis by (auto simp: wire_msg_def cong: list.case_cong)
qed

theorem pop_stub_exact_witness:
  "\<exists>s rb. push_str RB_MSG_STDOUT (bytes ''hi'') (fresh_bridge []) = Some s \<and>
     caml_rffi_rb_pop (Some (replicate CAML_RFFI_POP_BUF_CAP 1)) s
       = Some (Some (0, 0, bytes ''hi''), s\<lparr>g_rb := rb\<rparr>) \<and> rb_msgs rb = []"
proof -
  have lv: "live (fresh_bridge [])" "rb_msgs (g_rb (fresh_bridge [])) = []" by (simp_all add: fresh_bridge_live)
  obtain rb where rb: "push_str RB_MSG_STDOUT (bytes ''hi'') (fresh_bridge []) = Some ((fresh_bridge [])\<lparr>g_rb := rb, pushed := [Msg RB_MSG_STDOUT 0 (bytes ''hi'')]\<rparr>)"
    "rb_ok rb" "rcap rb = CAML_RFFI_POP_BUF_CAP"
    "rb_msgs rb = spec_push CAML_RFFI_POP_BUF_CAP (Msg RB_MSG_STDOUT 0 (wire (bytes ''hi''))) []"
    by (rule push_str_ok [OF liveD(1) [OF lv(1)], of RB_MSG_STDOUT "bytes ''hi''"]) (simp add: lv(2))
  let ?s = "(fresh_bridge [])\<lparr>g_rb := rb, pushed := [Msg RB_MSG_STDOUT 0 (bytes ''hi'')]\<rparr>"
  have "live ?s" using lv(1) rb by (simp add: live_def)
  moreover have "rb_msgs rb = [Msg RB_MSG_STDOUT 0 (bytes ''hi'')]"
    using rb(4) by (simp add: spec_push_fits fsize_def RB_FRAME_HEADER_SIZE_def CAML_RFFI_POP_BUF_CAP_def)
  ultimately show ?thesis
    using pop_stub_exact [of ?s "replicate CAML_RFFI_POP_BUF_CAP 1"] rb(1)
    by (auto simp: RB_MSG_STDOUT_def)
qed

end
