(* ===== verification/Callbacks.thy ===== *)
theory Callbacks
  imports Bridge_Stream
begin

section \<open>The callbacks R makes into the bridge\<close>

text \<open>
  \<open>c_ffi/load_r.c\<close>, sections ``Callbacks'', ``Passthrough for system()'' and ``Toplevel
  execution wrappers''. Each callback runs on the worker thread; wherever it touches shared
  state the other threads may run first (\<open>interfere\<close>).
\<close>

subsection \<open>Console output\<close>

text \<open>R passes a text and its length; the text of an \<open>R_write\<close> node is those bytes.\<close>

definition cb_write_console_ex :: "byte list \<Rightarrow> int \<Rightarrow> 'h bridge \<Rightarrow> 'h bridge option" where
  "cb_write_console_ex txt otype s = do {
     let kind = (if otype = 0 then RB_MSG_STDOUT else RB_MSG_STDERR);
     s1 \<leftarrow> interfere s;
     push_str kind txt s1
   }"

definition cb_init_capture :: "byte list \<Rightarrow> int \<Rightarrow> 'h bridge \<Rightarrow> 'h bridge option" where
  "cb_init_capture txt otype s =
     (if length txt = 0 then Some s
      else do {
        let need = sz_add (sz_add (init_output_len s) (length txt)) 1;
        let s1 = (if init_output_cap s < need
          then (let c = sz_mul need 2 in
            s\<lparr>init_output_cap := c, init_output_buf := Some (realloc (init_output_buf s) c)\<rparr>)
          else s);
        b \<leftarrow> init_output_buf s1;
        b1 \<leftarrow> memcpy b (init_output_len s1) txt 0 (length txt);
        let n = sz_add (init_output_len s1) (length txt);
        b2 \<leftarrow> store b1 n 0;
        Some (s1\<lparr>init_output_buf := Some b2, init_output_len := n\<rparr>)
      })"

text \<open>
  A blocking \<open>write\<close> to the capture pipe, at most \<open>unread\<close> bytes being in it. POSIX: a write of at
  most \<open>PIPE_BUF\<close> bytes is placed whole or not at all, and one that fits the pipe's guaranteed
  capacity does not block, so no signal can interrupt it. Otherwise a signal may stop it
  before the first byte, and a longer write after any number of bytes. Without a reader it raises
  \<open>SIGPIPE\<close>, whose default action, which nothing in the program changes, ends the process
  (\<open>None\<close>). The callers ignore the result.
\<close>

definition PIPE_BUF :: nat where "PIPE_BUF = 4096"

definition pipe_write :: "nat \<Rightarrow> byte list \<Rightarrow> 'h bridge \<Rightarrow> 'h bridge option" where
  "pipe_write unread x s =
     (case pipe_answers s of
        [] \<Rightarrow> Some (s\<lparr>runr_pipe := runr_pipe s @ x\<rparr>)
      | Pipe_broken # _ \<Rightarrow> None
      | Pipe_took k # as \<Rightarrow>
          let taken = (if unread + length x \<le> PIPE_BUF then x
            else if length x \<le> PIPE_BUF then (if k < length x then [] else x)
            else take k x)
          in Some (s\<lparr>pipe_answers := as, runr_pipe := runr_pipe s @ taken\<rparr>))"

text \<open>In the sandboxed child: one write to the capture pipe, of which the parent may have read
  nothing yet.\<close>

definition cb_runr_capture :: "byte list \<Rightarrow> int \<Rightarrow> 'h bridge \<Rightarrow> 'h bridge option" where
  "cb_runr_capture txt otype s =
     (if 0 \<le> g_runr_pipe_fd s then pipe_write (length (runr_pipe s)) txt s else Some s)"

text \<open>What a write of R to the console does: a call through \<open>*ptr_R_WriteConsoleEx\<close>.\<close>

definition write_console_ex :: "byte list \<Rightarrow> int \<Rightarrow> 'h bridge \<Rightarrow> 'h bridge option" where
  "write_console_ex txt otype s =
     (case write_console s of
        Cb_none \<Rightarrow> None
      | Cb_init_capture \<Rightarrow> cb_init_capture txt otype s
      | Cb_write_console_ex \<Rightarrow> cb_write_console_ex txt otype s
      | Cb_runr_capture \<Rightarrow> cb_runr_capture txt otype s)"

definition cb_flush_console :: "'h bridge \<Rightarrow> 'h bridge" where
  "cb_flush_console s = s"

definition cb_show_message :: "cstring \<Rightarrow> 'h bridge \<Rightarrow> 'h bridge option" where
  "cb_show_message msg s = do { s1 \<leftarrow> interfere s; push_str RB_MSG_STDERR msg s1 }"

subsection \<open>Blocking callbacks\<close>

text \<open>The polling loop \<open>while (!atomic_load(&gate)) usleep(1000)\<close>: it returns only if some
  action of the schedule opens the gate.\<close>

partial_function (option) await :: "('h bridge \<Rightarrow> bool) \<Rightarrow> 'h bridge \<Rightarrow> 'h bridge option" where
  "await gate s = (if gate s then Some s else Option.bind (interfere s) (await gate))"

text \<open>The line is written into R's buffer of \<open>len\<close> bytes; the result is the string R reads
  there.\<close>

definition cb_read_console :: "cstring \<Rightarrow> int \<Rightarrow> 'h bridge \<Rightarrow> (cstring \<times> 'h bridge) option" where
  "cb_read_console prompt len s = do {
     s1 \<leftarrow> interfere s;
     s2 \<leftarrow> push_str RB_MSG_READLINE prompt s1;
     s3 \<leftarrow> await readline_gate s2;
     s4 \<leftarrow> interfere s3;
     let s5 = s4\<lparr>readline_gate := False\<rparr>;
     s6 \<leftarrow> interfere s5;
     let input = block_of (readline_input_buf s6);
     let n = (if len < sint (word_of_nat (length input + 2) :: 32 word)
              then nat ((len - 2) mod 2 ^ 64) else length input);
     b1 \<leftarrow> memcpy (replicate (nat len) 0) 0 (input @ [0]) 0 n;
     b2 \<leftarrow> store b1 n 10;
     b3 \<leftarrow> store b2 (sz_add n 1) 0;
     line \<leftarrow> c_str b3;
     Some (line, s6\<lparr>readline_input_buf := None\<rparr>)
   }"

definition raoui_enter_passthrough :: "'h bridge \<Rightarrow> 'h bridge option" where
  "raoui_enter_passthrough s = do {
     s1 \<leftarrow> interfere s;
     s2 \<leftarrow> push RB_MSG_PASSTHROUGH None 0 s1;
     s3 \<leftarrow> await passthrough_gate s2;
     s4 \<leftarrow> interfere s3;
     Some (s4\<lparr>passthrough_gate := False\<rparr>)
   }"

definition raoui_exit_passthrough :: "'h bridge \<Rightarrow> 'h bridge option" where
  "raoui_exit_passthrough s = do { s1 \<leftarrow> interfere s; push RB_MSG_PASSTHROUGH_END None 0 s1 }"

subsection \<open>Images\<close>

definition image_payload :: "cstring \<Rightarrow> cstring \<Rightarrow> cstring \<Rightarrow> cstring \<Rightarrow> cstring \<Rightarrow> byte list" where
  "image_payload source preview mime width height =
     bytes ''source_path='' @ source @ [10] @ bytes ''preview_path='' @ preview @ [10] @
     bytes ''mime='' @ mime @ [10] @ bytes ''width='' @ width @ [10] @ bytes ''height='' @ height @ [10]"

definition raoui_emit_image :: "cstring ptr \<Rightarrow> cstring ptr \<Rightarrow> cstring \<Rightarrow> cstring \<Rightarrow> cstring \<Rightarrow>
    'h bridge \<Rightarrow> 'h bridge option" where
  "raoui_emit_image source_path preview_path width height mime s =
     (case (source_path, preview_path) of
        (Some src, Some prev) \<Rightarrow>
          if src = [] \<or> prev = [] then Some s
          else
            (let (written, payload) = snprintf 8192 (image_payload src prev mime width height) in
             if 8192 \<le> written then Some s
             else do { s1 \<leftarrow> interfere s; push RB_MSG_IMAGE (Some payload) (word_of_nat written) s1 })
      | _ \<Rightarrow> Some s)"

subsection \<open>Running a call into R\<close>

text \<open>The result is \<open>None\<close> in the first component when R jumped to top level.\<close>

primrec run_rcall :: "('a, 'h) rcall \<Rightarrow> 'h bridge \<Rightarrow> ('a option \<times> 'h bridge) option" where
  "run_rcall (R_return a h) s = Some (Some a, s\<lparr>r_heap := h\<rparr>)"
| "run_rcall (R_longjmp h) s = Some (None, s\<lparr>r_heap := h\<rparr>)"
| "run_rcall (R_write txt otype k) s = Option.bind (write_console_ex txt otype s) (run_rcall k)"
| "run_rcall (R_flush k) s = run_rcall k (cb_flush_console s)"
| "run_rcall (R_message msg k) s = Option.bind (cb_show_message msg s) (run_rcall k)"
| "run_rcall (R_read prompt len k) s =
     Option.bind (cb_read_console prompt len s) (\<lambda>r. run_rcall (k (fst r)) (snd r))"
| "run_rcall (R_enter_passthrough k) s = Option.bind (raoui_enter_passthrough s) (run_rcall k)"
| "run_rcall (R_exit_passthrough k) s = Option.bind (raoui_exit_passthrough s) (run_rcall k)"
| "run_rcall (R_emit_image src prev width height mime k) s =
     Option.bind (raoui_emit_image src prev width height mime s) (run_rcall k)"

text \<open>
  \<open>toplevel_exec\<close>: under \<open>R_ToplevelExec\<close> a jump ends the call and gives 0. Without it
  the call is direct, and a jump leaves for the dangling buffer of \<open>setup_Rmainloop\<close>, which
  is undefined.
\<close>

definition toplevel_exec :: "('s, 'h) r_api \<Rightarrow> ('a, 'h) rcall \<Rightarrow> 'h bridge \<Rightarrow> ('a option \<times> 'h bridge) option" where
  "toplevel_exec api t s =
     (if R_ToplevelExec_fn api then run_rcall t s
      else do { (r, s') \<leftarrow> run_rcall t s; (if r = None then None else Some (r, s')) })"

end
