(* ===== verification/Callback_Laws.thy ===== *)
theory Callback_Laws
  imports Callbacks
begin

section \<open>What the callbacks guarantee\<close>

text \<open>
  Output callbacks only extend the stream, with messages of the callback kinds; blocking
  callbacks resume when the frontend opens their gate; the line that reaches R is the line the
  frontend gave, cut to R's buffer.
\<close>

subsection \<open>Output\<close>

definition callback_kinds :: "byte set" where
  "callback_kinds = {RB_MSG_STDOUT, RB_MSG_STDERR, RB_MSG_READLINE, RB_MSG_PASSTHROUGH,
     RB_MSG_PASSTHROUGH_END, RB_MSG_IMAGE}"

definition callback_run :: "'h bridge \<Rightarrow> 'h bridge \<Rightarrow> bool" where
  "callback_run s s' \<longleftrightarrow>
     (\<exists>ms. extends s ms s' \<and> (\<forall>m \<in> set ms. mkind m \<in> callback_kinds)) \<and> steady s' = steady s"

lemma callback_runI:
  "extends s ms s' \<Longrightarrow> \<forall>m \<in> set ms. mkind m \<in> callback_kinds \<Longrightarrow> steady s' = steady s \<Longrightarrow> callback_run s s'"
  by (auto simp: callback_run_def)

lemma callback_run_live: "callback_run s s' \<Longrightarrow> live s'"
  by (auto simp: callback_run_def extends_def)

lemma callback_run_trans: "callback_run s s' \<Longrightarrow> callback_run s' s'' \<Longrightarrow> callback_run s s''"
  unfolding callback_run_def by (metis extends_trans set_append Un_iff)

lemma callback_run_heap:
  assumes "live s"
  shows "callback_run s (s\<lparr>r_heap := h\<rparr>)"
proof (rule callback_runI [of _ "[]"])
  show "extends s [] (s\<lparr>r_heap := h\<rparr>)"
    using extends_cong [of "s\<lparr>r_heap := h\<rparr>" s s "[]"] extends_refl [OF assms] by simp
qed (simp_all add: steady_def)

text \<open>The worker waited: nothing was pushed, and nothing of its own changed.\<close>

definition idle :: "'h bridge \<Rightarrow> 'h bridge \<Rightarrow> bool" where
  "idle s s' \<longleftrightarrow> extends s [] s' \<and> own s' = own s"

lemma idle_refl: "live s \<Longrightarrow> idle s s"
  by (simp add: idle_def extends_refl)

lemma idle_trans: "idle s s' \<Longrightarrow> idle s' s'' \<Longrightarrow> idle s s''"
  unfolding idle_def using extends_trans [of s "[]" s' "[]" s''] by simp

lemma idle_run: "idle s s' \<Longrightarrow> callback_run s s'"
  by (auto simp: idle_def own_def intro: callback_runI)

lemma idle_live: "idle s s' \<Longrightarrow> live s'"
  by (auto simp: idle_def extends_def)

lemma interfere_idle:
  assumes "live s"
  obtains s' where "interfere s = Some s'" "idle s s'" "ui s' = tl (ui s)"
  by (rule interfere_extends [OF assms]) (auto simp: idle_def intro: that)

lemma interfere_run:
  assumes "live s"
  obtains s' where "interfere s = Some s'" "callback_run s s'" "ui s' = tl (ui s)"
  by (rule interfere_extends [OF assms]) (auto intro!: callback_runI simp: own_def intro: that)

lemma push_str_run:
  assumes "live s" "kind \<in> callback_kinds"
  obtains s' where "push_str kind x s = Some s'" "callback_run s s'" "s' = s\<lparr>g_rb := g_rb s', pushed := pushed s'\<rparr>"
  by (rule push_str_extends [OF assms(1)])
    (auto intro!: callback_runI simp: own_def assms(2) intro: that)

lemma push_empty_run:
  assumes "live s" "kind \<in> callback_kinds"
  obtains s' where "push kind data 0 s = Some s'" "callback_run s s'" "s' = s\<lparr>g_rb := g_rb s', pushed := pushed s'\<rparr>"
  by (rule push_empty_extends [OF assms(1)])
    (auto intro!: callback_runI simp: own_def assms(2) intro: that)

text \<open>The pattern of every output callback: let the others run, then push.\<close>

lemma interfere_push_str_run:
  assumes "live s" "kind \<in> callback_kinds"
  obtains s' where "Option.bind (interfere s) (push_str kind x) = Some s'" "callback_run s s'"
proof -
  obtain s1 where s1: "interfere s = Some s1" "callback_run s s1" by (rule interfere_run [OF assms(1)])
  obtain s2 where "push_str kind x s1 = Some s2" "callback_run s1 s2"
    by (rule push_str_run [OF callback_run_live [OF s1(2)] assms(2)])
  with s1 that show thesis by (auto intro: callback_run_trans)
qed

lemma write_console_run:
  assumes "live s" "write_console s = Cb_write_console_ex"
  obtains s' where "write_console_ex txt otype s = Some s'" "callback_run s s'"
proof -
  have "(if otype = 0 then RB_MSG_STDOUT else RB_MSG_STDERR) \<in> callback_kinds" by (simp add: callback_kinds_def)
  from interfere_push_str_run [OF assms(1) this] that assms(2) show thesis
    by (auto simp: write_console_ex_def cb_write_console_ex_def Let_def)
qed

lemma show_message_run:
  assumes "live s"
  obtains s' where "cb_show_message msg s = Some s'" "callback_run s s'"
  by (rule interfere_push_str_run [OF assms, of RB_MSG_STDERR msg])
    (auto simp: callback_kinds_def cb_show_message_def intro: that)

lemma exit_passthrough_run:
  assumes "live s"
  obtains s' where "raoui_exit_passthrough s = Some s'" "callback_run s s'"
proof -
  obtain s1 where s1: "interfere s = Some s1" "callback_run s s1" by (rule interfere_run [OF assms])
  obtain s2 where "push RB_MSG_PASSTHROUGH_END None 0 s1 = Some s2" "callback_run s1 s2"
    by (rule push_empty_run [OF callback_run_live [OF s1(2)]]) (auto simp: callback_kinds_def)
  with s1 that show thesis by (auto simp: raoui_exit_passthrough_def intro: callback_run_trans)
qed

lemma emit_image_run:
  assumes "live s"
  obtains s' where "raoui_emit_image src prev width height mime s = Some s'" "callback_run s s'"
proof -
  have same: "callback_run s s" using callback_run_heap [OF assms, of "r_heap s"] by simp
  show thesis
  proof (cases "\<exists>a b. src = Some a \<and> prev = Some b \<and> a \<noteq> [] \<and> b \<noteq> [] \<and>
      length (image_payload a b mime width height) < 8192")
    case True
    then obtain a b where ab: "src = Some a" "prev = Some b" "a \<noteq> []" "b \<noteq> []"
      "length (image_payload a b mime width height) < 8192" by blast
    then have "raoui_emit_image src prev width height mime s =
        Option.bind (interfere s) (push_str RB_MSG_IMAGE (image_payload a b mime width height))"
      by (simp add: raoui_emit_image_def c_simps push_str_def [abs_def])
    with interfere_push_str_run [OF assms, of RB_MSG_IMAGE "image_payload a b mime width height"] that
    show thesis by (auto simp: callback_kinds_def)
  next
    case False
    then have "raoui_emit_image src prev width height mime s = Some s"
      by (cases src; cases prev) (auto simp: raoui_emit_image_def snprintf_def Let_def)
    then show thesis using same by (rule that)
  qed
qed

subsection \<open>Gates\<close>

text \<open>
  A gate is a flag that one action of the frontend opens and none closes. A worker that polls
  it resumes once that action is scheduled.
\<close>

locale gate =
  fixes is_open :: "'h bridge \<Rightarrow> bool" and opener :: ui_action
  assumes opens: "ui_step opener s = Some s' \<Longrightarrow> is_open s'"
    and stays: "ui_step a s = Some s' \<Longrightarrow> is_open s \<Longrightarrow> is_open s'"
    and only: "ui_step a s = Some s' \<Longrightarrow> a \<noteq> opener \<Longrightarrow> is_open s' \<Longrightarrow> is_open s"
    and ui_irrelevant: "is_open (s\<lparr>ui := bs\<rparr>) = is_open s"
begin

lemma ui_steps_stays: "ui_steps as s = Some s' \<Longrightarrow> is_open s \<Longrightarrow> is_open s'"
  by (induction as arbitrary: s) (auto intro: stays)

lemma ui_steps_opens: "ui_steps as s = Some s' \<Longrightarrow> opener \<in> set as \<Longrightarrow> is_open s'"
  by (induction as arbitrary: s) (auto dest: opens intro: ui_steps_stays)

lemma interfere_opens:
  assumes "interfere s = Some s'" "is_open s \<or> ui s \<noteq> [] \<and> opener \<in> set (hd (ui s))"
  shows "is_open s'"
  using assms ui_irrelevant
  by (auto simp: interfere_def neq_Nil_conv split: list.splits intro: ui_steps_stays ui_steps_opens)

lemma await_partial:
  assumes "await is_open s = Some s'" "live s"
  shows "idle s s' \<and> is_open s'"
proof -
  have "await g s = Some s' \<Longrightarrow> live s \<longrightarrow> idle s s' \<and> g s'" for g :: "'h bridge \<Rightarrow> bool"
  proof (rule await.raw_induct [where P = "\<lambda>g s s'. live s \<longrightarrow> idle s s' \<and> g s'"])
    fix f g s s'
    assume IH: "\<And>(g :: 'h bridge \<Rightarrow> bool) s s'. f g s = Some s' \<Longrightarrow> live s \<longrightarrow> idle s s' \<and> g s'"
      and eq: "(if g s then Some s else Option.bind (interfere s) (f g)) = Some s'"
    show "live s \<longrightarrow> idle s s' \<and> g s'"
    proof
      assume lv: "live s"
      show "idle s s' \<and> g s'"
      proof (cases "g s")
        case True
        with eq idle_refl [OF lv] show ?thesis by simp
      next
        case False
        obtain s1 where s1: "interfere s = Some s1" "idle s s1" by (rule interfere_idle [OF lv])
        with eq False have "f g s1 = Some s'" by simp
        from IH [OF this] idle_live [OF s1(2)] s1(2) show ?thesis by (blast intro: idle_trans)
      qed
    qed
  qed
  with assms show ?thesis by blast
qed

text \<open>The polling loop ends if the opener is anywhere in the schedule.\<close>

lemma await_returns:
  assumes "live s" "is_open s \<or> (\<exists>b \<in> set (ui s). opener \<in> set b)"
  obtains s' where "await is_open s = Some s'" "idle s s'" "is_open s'"
proof -
  have "\<exists>s'. await is_open s = Some s'"
    using assms
  proof (induction "length (ui s)" arbitrary: s)
    case 0
    then show ?case by (subst await.simps) auto
  next
    case (Suc n)
    then obtain b bs where b: "ui s = b # bs" by (metis length_Suc_conv)
    obtain s1 where s1: "interfere s = Some s1" "callback_run s s1" "ui s1 = tl (ui s)"
      by (rule interfere_run [OF Suc.prems(1)])
    have "is_open s1 \<or> (\<exists>b \<in> set (ui s1). opener \<in> set b)"
      using Suc.prems(2) interfere_opens [OF s1(1)] b s1(3) by auto
    with Suc.hyps s1 b callback_run_live have "\<exists>s'. await is_open s1 = Some s'" by fastforce
    with s1 show ?case by (subst await.simps) auto
  qed
  then show thesis using await_partial [OF _ assms(1)] that by blast
qed

text \<open>Without the opener it never ends.\<close>

lemma ui_steps_only: "ui_steps as s = Some s' \<Longrightarrow> opener \<notin> set as \<Longrightarrow> is_open s' \<Longrightarrow> is_open s"
  by (induction as arbitrary: s) (auto dest: only)

lemma interfere_only:
  assumes "interfere s = Some s'" "\<not> is_open s" "\<forall>b \<in> set (ui s). opener \<notin> set b"
  shows "\<not> is_open s'"
  using assms ui_irrelevant by (auto simp: interfere_def split: list.splits dest: ui_steps_only)

lemma await_stuck:
  assumes "live s" "\<not> is_open s" "\<forall>b \<in> set (ui s). opener \<notin> set b"
  shows "await is_open s = None"
proof (rule ccontr)
  let ?stuck = "\<lambda>g s. live s \<and> g = is_open \<and> \<not> is_open s \<and> (\<forall>b \<in> set (ui s). opener \<notin> set b)"
  assume "await is_open s \<noteq> None"
  then obtain s' where r: "await is_open s = Some s'" by blast
  have "\<not> ?stuck is_open s"
  proof (rule await.raw_induct [where P = "\<lambda>g s s'. \<not> ?stuck g s", OF _ r])
    fix f and g :: "'h bridge \<Rightarrow> bool" and s s'
    assume IH: "\<And>g s s'. f g s = Some s' \<Longrightarrow> \<not> ?stuck g s"
      and eq: "(if g s then Some s else Option.bind (interfere s) (f g)) = Some s'"
    show "\<not> ?stuck g s"
    proof
      assume st: "?stuck g s"
      obtain s1 where s1: "interfere s = Some s1" "idle s s1" "ui s1 = tl (ui s)"
        using interfere_idle st by blast
      then have "?stuck g s1" using st interfere_only [OF s1(1)] idle_live [OF s1(2)] by (auto dest: in_set_tlD)
      moreover have "f g s1 = Some s'" using eq st s1(1) by simp
      ultimately show False using IH by blast
    qed
  qed
  with assms show False by blast
qed

end

lemmas ui_defs = caml_rffi_submit_def rffi_submit_def caml_rffi_request_completions_def
    rffi_request_completions_def caml_rffi_request_columns_def rffi_request_columns_def
    caml_rffi_interrupt_def rffi_interrupt_def caml_rffi_signal_passthrough_def
    rffi_signal_passthrough_def store_readline_input_def open_readline_gate_def runr_post_def
    caml_rffi_rb_pop_def rffi_rb_pop_def caml_rffi_rb_has_data_def rffi_rb_has_data_def
    caml_rffi_rb_reset_def rffi_rb_reset_def

lemma ui_step_gates:
  "ui_step a s = Some s' \<Longrightarrow> readline_gate s \<Longrightarrow> readline_gate s'"
  "ui_step a s = Some s' \<Longrightarrow> passthrough_gate s \<Longrightarrow> passthrough_gate s'"
  by (cases a; auto simp: ui_defs split: option.splits if_splits)+

lemma ui_step_gates_only:
  "ui_step a s = Some s' \<Longrightarrow> a \<noteq> Ui_open_readline \<Longrightarrow> readline_gate s' \<Longrightarrow> readline_gate s"
  "ui_step a s = Some s' \<Longrightarrow> a \<noteq> Ui_signal_passthrough \<Longrightarrow> passthrough_gate s' \<Longrightarrow> passthrough_gate s"
  by (cases a; auto simp: ui_defs split: option.splits if_splits)+

interpretation readline: gate readline_gate Ui_open_readline
  by unfold_locales (auto simp: open_readline_gate_def intro: ui_step_gates ui_step_gates_only)

interpretation passthrough: gate passthrough_gate Ui_signal_passthrough
  by unfold_locales (auto simp: caml_rffi_signal_passthrough_def rffi_signal_passthrough_def
    intro: ui_step_gates ui_step_gates_only)

subsection \<open>Reading a line\<close>

text \<open>The lines the frontend may answer with: what is stored, and what the schedule stores.\<close>

definition inputs :: "'h bridge \<Rightarrow> cstring set" where
  "inputs s = set_option (readline_input_buf s) \<union>
     {until_nul x | x. \<exists>b \<in> set (ui s). Ui_store_readline x \<in> set b}"

lemma ui_step_input:
  "ui_step a s = Some s' \<Longrightarrow> readline_input_buf s' = readline_input_buf s \<or>
     (\<exists>x. a = Ui_store_readline x \<and> readline_input_buf s' = Some (until_nul x))"
  by (cases a; auto simp: ui_defs split: option.splits if_splits)+

lemma ui_steps_input:
  "ui_steps as s = Some s' \<Longrightarrow> readline_input_buf s' = readline_input_buf s \<or>
     (\<exists>x. Ui_store_readline x \<in> set as \<and> readline_input_buf s' = Some (until_nul x))"
proof (induction as arbitrary: s)
  case Nil
  then show ?case by simp
next
  case (Cons a as)
  then obtain s1 where "ui_step a s = Some s1" "ui_steps as s1 = Some s'" by auto
  with Cons.IH [of s1] ui_step_input [of a s s1] show ?case by auto
qed

lemma interfere_inputs: "interfere s = Some s' \<Longrightarrow> live s \<Longrightarrow> inputs s' \<subseteq> inputs s"
proof -
  assume i: "interfere s = Some s'" and "live s"
  then have u: "ui s' = tl (ui s)" by (metis interfere_run option.inject)
  show ?thesis
  proof (cases "ui s")
    case Nil
    with i show ?thesis by (simp add: interfere_def)
  next
    case (Cons b bs)
    with i have "ui_steps b (s\<lparr>ui := bs\<rparr>) = Some s'" by (simp add: interfere_def)
    from ui_steps_input [OF this] Cons u show ?thesis
      by (cases "readline_input_buf s'") (auto simp: inputs_def)
  qed
qed

lemma await_inputs:
  assumes "await g s = Some s'" "live s"
  shows "inputs s' \<subseteq> inputs s"
proof -
  have "live s \<longrightarrow> inputs s' \<subseteq> inputs s"
  proof (rule await.raw_induct [where P = "\<lambda>g s s'. live s \<longrightarrow> inputs s' \<subseteq> inputs s", OF _ assms(1)])
    fix f and g :: "'a bridge \<Rightarrow> bool" and s s'
    assume IH: "\<And>g s s'. f g s = Some s' \<Longrightarrow> live s \<longrightarrow> inputs s' \<subseteq> inputs s"
      and eq: "(if g s then Some s else Option.bind (interfere s) (f g)) = Some s'"
    show "live s \<longrightarrow> inputs s' \<subseteq> inputs s"
    proof
      assume lv: "live s"
      show "inputs s' \<subseteq> inputs s"
      proof (cases "g s")
        case False
        obtain s1 where s1: "interfere s = Some s1" "callback_run s s1" by (rule interfere_run [OF lv])
        with eq False have "f g s1 = Some s'" by simp
        from IH [OF this] callback_run_live [OF s1(2)] interfere_inputs [OF s1(1) lv] show ?thesis by blast
      qed (use eq in simp)
    qed
  qed
  with assms(2) show ?thesis by blast
qed

text \<open>
  A well-ordered answer: whenever the gate opens, one of the lines \<open>X\<close> has been stored before, as
  \<open>rffi_submit_readline_input\<close> does it, and no other line is stored. \<open>feeds X b as\<close> says so of the
  actions to come, \<open>b\<close> telling whether a line of \<open>X\<close> is already there.
\<close>

fun feeds :: "cstring set \<Rightarrow> bool \<Rightarrow> ui_action list \<Rightarrow> bool" where
  "feeds X b [] = True"
| "feeds X b (Ui_store_readline y # as) = (until_nul y \<in> X \<and> feeds X True as)"
| "feeds X b (Ui_open_readline # as) = (b \<and> feeds X b as)"
| "feeds X b (_ # as) = feeds X b as"

definition answered_by :: "cstring set \<Rightarrow> 'h bridge \<Rightarrow> bool" where
  "answered_by X s \<longleftrightarrow> (readline_gate s \<longrightarrow> readline_input_buf s \<in> Some ` X) \<and>
     feeds X (readline_input_buf s \<in> Some ` X) (concat (ui s))"

lemma ui_step_ui: "ui_step a s = Some s' \<Longrightarrow> ui s' = ui s"
  by (cases a; auto simp: ui_defs split: option.splits if_splits)

lemma feeds_other: "(\<And>y. a \<noteq> Ui_store_readline y) \<Longrightarrow> a \<noteq> Ui_open_readline \<Longrightarrow> feeds X b (a # as) = feeds X b as"
  by (cases a) auto

lemma ui_step_feeds:
  assumes "ui_step a s = Some s'" "feeds X (readline_input_buf s \<in> Some ` X) (a # as)"
    "readline_gate s \<longrightarrow> readline_input_buf s \<in> Some ` X"
  shows "feeds X (readline_input_buf s' \<in> Some ` X) as \<and> (readline_gate s' \<longrightarrow> readline_input_buf s' \<in> Some ` X) \<and>
   (readline_input_buf s \<in> Some ` X \<longrightarrow> readline_input_buf s' \<in> Some ` X)"
proof (cases "(\<exists>y. a = Ui_store_readline y) \<or> a = Ui_open_readline")
  case True
  with assms show ?thesis by (auto simp: store_readline_input_def open_readline_gate_def)
next
  case False
  then have "readline_input_buf s' = readline_input_buf s" "feeds X (readline_input_buf s \<in> Some ` X) as"
    using ui_step_input [OF assms(1)] assms(2) feeds_other [of a] by auto
  with assms(3) ui_step_gates_only(1) [OF assms(1)] False show ?thesis by simp
qed

lemma ui_steps_feeds:
  "ui_steps as s = Some s' \<Longrightarrow> feeds X (readline_input_buf s \<in> Some ` X) (as @ bs) \<Longrightarrow>
   readline_gate s \<longrightarrow> readline_input_buf s \<in> Some ` X \<Longrightarrow>
   feeds X (readline_input_buf s' \<in> Some ` X) bs \<and> (readline_gate s' \<longrightarrow> readline_input_buf s' \<in> Some ` X) \<and>
   (readline_input_buf s \<in> Some ` X \<longrightarrow> readline_input_buf s' \<in> Some ` X) \<and> ui s' = ui s"
proof (induction as arbitrary: s)
  case Nil
  then show ?case by simp
next
  case (Cons a as)
  then obtain s1 where s1: "ui_step a s = Some s1" "ui_steps as s1 = Some s'" by auto
  have "feeds X (readline_input_buf s1 \<in> Some ` X) (as @ bs) \<and> (readline_gate s1 \<longrightarrow> readline_input_buf s1 \<in> Some ` X) \<and>
      (readline_input_buf s \<in> Some ` X \<longrightarrow> readline_input_buf s1 \<in> Some ` X)"
    using Cons.prems(2) by (intro ui_step_feeds [OF s1(1) _ Cons.prems(3)]) simp
  with Cons.IH [OF s1(2)] ui_step_ui [OF s1(1)] show ?case by simp
qed

lemma interfere_answered:
  assumes "interfere s = Some s'" "answered_by X s"
  shows "answered_by X s'" "readline_input_buf s \<in> Some ` X \<Longrightarrow> readline_input_buf s' \<in> Some ` X"
proof -
  have "answered_by X s' \<and> (readline_input_buf s \<in> Some ` X \<longrightarrow> readline_input_buf s' \<in> Some ` X)"
  proof (cases "ui s")
    case Nil
    with assms show ?thesis by (simp add: interfere_def)
  next
    case (Cons b bs)
    with assms(1) have "ui_steps b (s\<lparr>ui := bs\<rparr>) = Some s'" by (simp add: interfere_def)
    from ui_steps_feeds [OF this, of X "concat bs"] assms(2) Cons show ?thesis by (simp add: answered_by_def)
  qed
  then show "answered_by X s'" "readline_input_buf s \<in> Some ` X \<Longrightarrow> readline_input_buf s' \<in> Some ` X" by simp_all
qed

lemma await_answered:
  assumes "await g s = Some s'" "answered_by X s"
  shows "answered_by X s'"
proof -
  have "answered_by X s \<longrightarrow> answered_by X s'"
  proof (rule await.raw_induct [where P = "\<lambda>g s s'. answered_by X s \<longrightarrow> answered_by X s'", OF _ assms(1)])
    fix f and g :: "'a bridge \<Rightarrow> bool" and s s'
    assume IH: "\<And>g s s'. f g s = Some s' \<Longrightarrow> answered_by X s \<longrightarrow> answered_by X s'"
      and eq: "(if g s then Some s else Option.bind (interfere s) (f g)) = Some s'"
    show "answered_by X s \<longrightarrow> answered_by X s'"
    proof (cases "g s")
      case False
      with eq obtain s1 where "interfere s = Some s1" "f g s1 = Some s'" by (auto simp: bind_eq_Some_conv)
      with IH interfere_answered(1) show ?thesis by blast
    qed (use eq in simp)
  qed
  with assms(2) show ?thesis by blast
qed

text \<open>The copy into R's buffer: in bounds, newline-terminated, cut to the buffer.\<close>

lemma read_console_copy:
  assumes "line_ok x" "2 \<le> len" "len < 2 ^ 31"
  defines "n \<equiv> (if len < sint (word_of_nat (length x + 2) :: 32 word)
              then nat ((len - 2) mod 2 ^ 64) else length x)"
  shows "\<exists>b1 b2 b3. memcpy (replicate (nat len) 0) 0 (x @ [0]) 0 n = Some b1 \<and> store b1 n 10 = Some b2 \<and>
    store b2 (sz_add n 1) 0 = Some b3 \<and> c_str b3 = Some (take (nat len - 2) x @ [10])"
proof -
  have "length x + 2 < 2 ^ 31" "0 \<notin> set x" using assms(1) by (auto simp: line_ok_def)
  then have si: "sint (word_of_nat (length x + 2) :: 32 word) = int (length x + 2)"
    by (intro sint_small)
  have "n = min (length x) (nat len - 2)"
    unfolding n_def si using assms(2,3) by auto
  then have n: "n \<le> length x" "n + 2 \<le> nat len" "take n x = take (nat len - 2) x"
    using assms(2) by (auto simp: min_def)
  let ?b1 = "take n x @ replicate (nat len - n) 0"
  have 1: "memcpy (replicate (nat len) 0) 0 (x @ [0]) 0 n = Some ?b1"
    using n by (simp add: memcpy_def)
  have sz: "sz_add n 1 = n + 1" using n assms(3) by (intro sz_add_small) simp
  have 2: "store ?b1 n 10 = Some (?b1[n := 10])"
    "store (?b1[n := 10]) (sz_add n 1) 0 = Some (?b1[n := 10, n + 1 := 0])"
    using n sz by (simp_all add: store_def)
  have "2 \<le> nat len - n" using n(2) by linarith
  then obtain k where k: "nat len - n = Suc (Suc k)" by (auto dest: le_Suc_ex)
  have "?b1[n := 10, n + 1 := 0] = (take n x @ [10]) @ 0 # replicate k 0"
    using n(1) by (simp add: k list_update_append)
  moreover have "0 \<notin> set (take n x @ [10 :: byte])" using \<open>0 \<notin> set x\<close> by (auto dest: in_set_takeD)
  ultimately have "c_str (?b1[n := 10, n + 1 := 0]) = Some (take n x @ [10])" by (metis c_str_terminated)
  with 1 2 n(3) show ?thesis by metis
qed

lemma cb_read_console_steps:
  assumes "interfere s = Some s1" "push_str RB_MSG_READLINE prompt s1 = Some s2" "await readline_gate s2 = Some s3"
    "interfere s3 = Some s4" "interfere (s4\<lparr>readline_gate := False\<rparr>) = Some s6"
    "line_ok (block_of (readline_input_buf s6))" "2 \<le> len" "len < 2 ^ 31"
  shows "cb_read_console prompt len s =
    Some (take (nat len - 2) (block_of (readline_input_buf s6)) @ [10], s6\<lparr>readline_input_buf := None\<rparr>)"
  using read_console_copy [OF assms(6-8)] by (clarsimp simp: cb_read_console_def assms(1-5) Let_def)

lemma answered_cong:
  "ui t = ui s \<Longrightarrow> readline_input_buf t = readline_input_buf s \<Longrightarrow> readline_gate t = readline_gate s \<Longrightarrow>
   answered_by X t = answered_by X s"
  by (simp add: answered_by_def)

lemma inputs_cong:
  "ui t = ui s \<Longrightarrow> readline_input_buf t = readline_input_buf s \<Longrightarrow> inputs t = inputs s"
  by (simp add: inputs_def)

text \<open>The two halves around the wait.\<close>

lemma read_console_before:
  assumes "live s"
  obtains s1 s2 where "interfere s = Some s1" "push_str RB_MSG_READLINE prompt s1 = Some s2"
    "extends s [Msg RB_MSG_READLINE 0 (wire prompt)] s2" "own s2 = own s" "inputs s2 \<subseteq> inputs s"
    "readline_gate s \<or> (\<exists>b \<in> set (ui s). Ui_open_readline \<in> set b) \<Longrightarrow>
      readline_gate s2 \<or> (\<exists>b \<in> set (ui s2). Ui_open_readline \<in> set b)"
    "\<forall>X. answered_by X s \<longrightarrow> answered_by X s2"
proof -
  obtain s1 where s1: "interfere s = Some s1" "idle s s1" "ui s1 = tl (ui s)"
    by (rule interfere_idle [OF assms])
  obtain s2 where s2: "push_str RB_MSG_READLINE prompt s1 = Some s2"
    "extends s1 [Msg RB_MSG_READLINE 0 (wire prompt)] s2" "own s2 = own s1" "s2 = s1\<lparr>g_rb := g_rb s2, pushed := pushed s2\<rparr>"
    by (rule push_str_extends [OF idle_live [OF s1(2)], of RB_MSG_READLINE])
  have same: "ui s2 = ui s1" "readline_input_buf s2 = readline_input_buf s1" "readline_gate s2 = readline_gate s1"
    by (subst s2(4), simp)+
  have op: "readline_gate s2 \<or> (\<exists>b \<in> set (ui s2). Ui_open_readline \<in> set b)"
    if "readline_gate s \<or> (\<exists>b \<in> set (ui s). Ui_open_readline \<in> set b)"
    using that readline.interfere_opens [OF s1(1)] same s1(3) by (cases "ui s") auto
  have i: "inputs s2 \<subseteq> inputs s"
    using interfere_inputs [OF s1(1) assms] inputs_cong [OF same(1,2)] by simp
  have e: "extends s [Msg RB_MSG_READLINE 0 (wire prompt)] s2" "own s2 = own s"
    using extends_trans [of s "[]" s1] s1(2) s2(2,3) by (fastforce simp: idle_def)+
  have "\<forall>X. answered_by X s \<longrightarrow> answered_by X s2"
    using interfere_answered(1) [OF s1(1)] answered_cong [OF same] by blast
  then show thesis by (intro that [OF s1(1) s2(1) e i op])
qed

lemma read_console_after:
  assumes "live s"
  obtains s1 s2 where "interfere s = Some s1" "interfere (s1\<lparr>readline_gate := False\<rparr>) = Some s2"
    "idle s s2" "inputs s2 \<subseteq> inputs s"
    "\<forall>X. answered_by X s \<and> readline_gate s \<longrightarrow> block_of (readline_input_buf s2) \<in> X"
proof -
  obtain s1 where s1: "interfere s = Some s1" "idle s s1" by (rule interfere_idle [OF assms])
  let ?t = "s1\<lparr>readline_gate := False\<rparr>"
  have t: "idle s1 ?t"
    using idle_live [OF s1(2)] extends_refl extends_cong [of ?t s1 s1 "[]"]
    by (auto simp: idle_def own_def steady_def)
  obtain s2 where s2: "interfere ?t = Some s2" "idle ?t s2" by (rule interfere_idle [OF idle_live [OF t]])
  have "inputs s2 \<subseteq> inputs s"
    using interfere_inputs [OF s1(1) assms] interfere_inputs [OF s2(1) idle_live [OF t]]
      inputs_cong [of ?t s1] by auto
  moreover have "block_of (readline_input_buf s2) \<in> X" if h: "answered_by X s" "readline_gate s" for X
  proof -
    have "answered_by X s1" "readline_gate s1"
      using interfere_answered(1) [OF s1(1) h(1)] readline.interfere_opens [OF s1(1)] h(2) by auto
    then have "answered_by X ?t" "readline_input_buf ?t \<in> Some ` X" by (auto simp: answered_by_def)
    from interfere_answered(2) [OF s2(1) this] show ?thesis by auto
  qed
  moreover have "idle s s2" using s1(2) t s2(2) by (metis idle_trans)
  ultimately show thesis by (intro that [OF s1(1) s2(1)]) auto
qed

lemma clear_input_idle: "live s \<Longrightarrow> idle s (s\<lparr>readline_input_buf := None\<rparr>)"
  by (auto simp: idle_def extends_def live_def stream_def own_def steady_def)

lemma prompt_run:
  assumes "extends s [Msg RB_MSG_READLINE 0 x] s'" "own s' = own s"
  shows "callback_run s s'"
  by (rule callback_runI [OF assms(1)]) (use assms(2) in \<open>auto simp: own_def callback_kinds_def\<close>)

lemma extends_idle: "extends s ms s' \<Longrightarrow> idle s' s'' \<Longrightarrow> extends s ms s''"
  unfolding idle_def using extends_trans [of s ms s' "[]" s''] by simp

lemma read_console_partial:
  assumes "cb_read_console prompt len s = Some (line, s')" "live s"
  shows "callback_run s s'"
proof -
  obtain s1 s2 where a: "interfere s = Some s1" "push_str RB_MSG_READLINE prompt s1 = Some s2"
    "extends s [Msg RB_MSG_READLINE 0 (wire prompt)] s2" "own s2 = own s"
    by (rule read_console_before [OF assms(2), of prompt])
  with assms(1) obtain s3 where b: "await readline_gate s2 = Some s3"
    by (clarsimp simp: cb_read_console_def)
  then have s3: "idle s2 s3" using readline.await_partial extends_live [OF a(3)] by blast
  obtain s4 s6 where c: "interfere s3 = Some s4" "interfere (s4\<lparr>readline_gate := False\<rparr>) = Some s6"
    "idle s3 s6" by (rule read_console_after [OF idle_live [OF s3]])
  have "s' = s6\<lparr>readline_input_buf := None\<rparr>"
    using assms(1) by (clarsimp simp: cb_read_console_def a b c Let_def)
  then show ?thesis
    using prompt_run [OF a(3,4)] s3 c(3) clear_input_idle [OF idle_live [OF c(3)]]
    by (metis callback_run_trans idle_run)
qed

lemma read_console_returns:
  assumes "live s" "2 \<le> len" "len < 2 ^ 31"
    "readline_gate s \<or> (\<exists>b \<in> set (ui s). Ui_open_readline \<in> set b)"
  obtains s' x where "cb_read_console prompt len s = Some (take (nat len - 2) x @ [10], s')"
    "extends s [Msg RB_MSG_READLINE 0 (wire prompt)] s'" "own s' = own s"
    "x = [] \<or> x \<in> inputs s" "\<forall>X. answered_by X s \<longrightarrow> x \<in> X" "readline_input_buf s' = None"
proof -
  obtain s1 s2 where a: "interfere s = Some s1" "push_str RB_MSG_READLINE prompt s1 = Some s2"
    "extends s [Msg RB_MSG_READLINE 0 (wire prompt)] s2" "own s2 = own s" "inputs s2 \<subseteq> inputs s"
    "readline_gate s2 \<or> (\<exists>b \<in> set (ui s2). Ui_open_readline \<in> set b)" "\<forall>X. answered_by X s \<longrightarrow> answered_by X s2"
    by (rule read_console_before [OF assms(1), of prompt]) (use assms(4) in blast)
  obtain s3 where b: "await readline_gate s2 = Some s3" "idle s2 s3" "readline_gate s3"
    by (rule readline.await_returns [OF extends_live [OF a(3)] a(6)])
  obtain s4 s6 where c: "interfere s3 = Some s4" "interfere (s4\<lparr>readline_gate := False\<rparr>) = Some s6"
    "idle s3 s6" "inputs s6 \<subseteq> inputs s3"
    "\<forall>X. answered_by X s3 \<and> readline_gate s3 \<longrightarrow> block_of (readline_input_buf s6) \<in> X" by (rule read_console_after [OF idle_live [OF b(2)]])
  let ?x = "block_of (readline_input_buf s6)"
  have "live s6" by (rule idle_live [OF c(3)])
  then have "line_ok ?x"
    by (cases "readline_input_buf s6") (auto simp: live_def line_ok_def)
  then have r: "cb_read_console prompt len s = Some (take (nat len - 2) ?x @ [10], s6\<lparr>readline_input_buf := None\<rparr>)"
    by (rule cb_read_console_steps [OF a(1,2) b(1) c(1,2) _ assms(2,3)])
  have "?x = [] \<or> ?x \<in> inputs s6" by (cases "readline_input_buf s6") (auto simp: inputs_def)
  with a(5) c(4) await_inputs [OF b(1) extends_live [OF a(3)]] have x: "?x = [] \<or> ?x \<in> inputs s" by blast
  have pin: "\<forall>X. answered_by X s \<longrightarrow> ?x \<in> X"
    using a(7) await_answered [OF b(1)] c(5) b(3) by blast
  have i: "idle s2 (s6\<lparr>readline_input_buf := None\<rparr>)"
    using b(2) c(3) clear_input_idle [OF \<open>live s6\<close>] by (metis idle_trans)
  with a(4) have "own (s6\<lparr>readline_input_buf := None\<rparr>) = own s" by (simp add: idle_def)
  with that [OF r extends_idle [OF a(3) i] _ x pin] show thesis by simp
qed

subsection \<open>Passthrough\<close>

lemma enter_passthrough_partial:
  assumes "raoui_enter_passthrough s = Some s'" "live s"
  shows "callback_run s s'"
proof -
  obtain s1 where s1: "interfere s = Some s1" "callback_run s s1" by (rule interfere_run [OF assms(2)])
  obtain s2 where s2: "push RB_MSG_PASSTHROUGH None 0 s1 = Some s2" "callback_run s1 s2"
    by (rule push_empty_run [OF callback_run_live [OF s1(2)], of RB_MSG_PASSTHROUGH]) (auto simp: callback_kinds_def)
  with assms(1) s1 obtain s3 where b: "await passthrough_gate s2 = Some s3"
    by (auto simp: raoui_enter_passthrough_def)
  then have s3: "callback_run s2 s3" using passthrough.await_partial callback_run_live [OF s2(2)] idle_run by blast
  obtain s4 where s4: "interfere s3 = Some s4" "callback_run s3 s4"
    by (rule interfere_run [OF callback_run_live [OF s3]])
  have e: "s' = s4\<lparr>passthrough_gate := False\<rparr>"
    using assms(1) s1 s2 b s4 by (auto simp: raoui_enter_passthrough_def)
  have "callback_run s4 s'"
    using callback_run_live [OF s4(2)] extends_refl extends_cong [of s' s4 s4 "[]"] e
    by (auto intro!: callback_runI [of _ "[]"] simp: steady_def)
  with s1 s2 s3 s4 show ?thesis by (metis callback_run_trans)
qed

lemma enter_passthrough_returns:
  assumes "live s" "passthrough_gate s \<or> (\<exists>b \<in> set (ui s). Ui_signal_passthrough \<in> set b)"
  obtains s' where "raoui_enter_passthrough s = Some s'" "extends s [Msg RB_MSG_PASSTHROUGH 0 []] s'"
    "own s' = own s" "\<not> passthrough_gate s'"
proof -
  obtain s1 where s1: "interfere s = Some s1" "idle s s1" "ui s1 = tl (ui s)" by (rule interfere_idle [OF assms(1)])
  obtain s2 where s2: "push RB_MSG_PASSTHROUGH None 0 s1 = Some s2" "extends s1 [Msg RB_MSG_PASSTHROUGH 0 []] s2"
    "own s2 = own s1" "s2 = s1\<lparr>g_rb := g_rb s2, pushed := pushed s2\<rparr>" by (rule push_empty_extends [OF idle_live [OF s1(2)]])
  have same: "ui s2 = ui s1" "passthrough_gate s2 = passthrough_gate s1" by (subst s2(4), simp)+
  have "passthrough_gate s2 \<or> (\<exists>b \<in> set (ui s2). Ui_signal_passthrough \<in> set b)"
    using assms(2) passthrough.interfere_opens [OF s1(1)] same s1(3) by (cases "ui s") auto
  then obtain s3 where s3: "await passthrough_gate s2 = Some s3" "idle s2 s3"
    by (rule passthrough.await_returns [OF extends_live [OF s2(2)]])
  obtain s4 where s4: "interfere s3 = Some s4" "idle s3 s4" by (rule interfere_idle [OF idle_live [OF s3(2)]])
  let ?s' = "s4\<lparr>passthrough_gate := False\<rparr>"
  have "idle s4 ?s'"
    using idle_live [OF s4(2)] extends_refl extends_cong [of ?s' s4 s4 "[]"] by (auto simp: idle_def own_def steady_def)
  then have i: "idle s2 ?s'" using s3(2) s4(2) by (metis idle_trans)
  have "extends s ([] @ [Msg RB_MSG_PASSTHROUGH 0 []]) s2" using s1(2) s2(2) by (intro extends_trans) (simp_all add: idle_def)
  then have "extends s [Msg RB_MSG_PASSTHROUGH 0 []] ?s'" using extends_idle i by fastforce
  moreover have "raoui_enter_passthrough s = Some ?s'" using s1(1) s2(1) s3(1) s4(1) by (simp add: raoui_enter_passthrough_def)
  moreover have "own ?s' = own s" using i s1(2) s2(3) by (simp add: idle_def)
  ultimately show thesis using that by simp
qed

text \<open>An image is sent whole or not at all.\<close>

lemma emit_image_exact:
  assumes "live s" "a \<noteq> []" "b \<noteq> []"
  shows "8192 \<le> length (image_payload a b mime width height) \<Longrightarrow>
      raoui_emit_image (Some a) (Some b) width height mime s = Some s"
    and "length (image_payload a b mime width height) < 8192 \<Longrightarrow>
      \<exists>s'. raoui_emit_image (Some a) (Some b) width height mime s = Some s' \<and>
        extends s [Msg RB_MSG_IMAGE 0 (image_payload a b mime width height)] s'"
proof -
  let ?p = "image_payload a b mime width height"
  show "raoui_emit_image (Some a) (Some b) width height mime s = Some s" if "8192 \<le> length ?p"
    using that assms(2,3) by (simp add: raoui_emit_image_def snprintf_def)
  show "\<exists>s'. raoui_emit_image (Some a) (Some b) width height mime s = Some s' \<and> extends s [Msg RB_MSG_IMAGE 0 ?p] s'"
    if "length ?p < 8192"
  proof -
    have w: "wire ?p = ?p" using that by simp
    obtain s1 where s1: "interfere s = Some s1" "idle s s1" by (rule interfere_idle [OF assms(1)])
    obtain s2 where s2: "push_str RB_MSG_IMAGE ?p s1 = Some s2" "extends s1 [Msg RB_MSG_IMAGE 0 ?p] s2"
      by (rule push_str_extends [OF idle_live [OF s1(2)], of RB_MSG_IMAGE ?p]) (simp add: w)
    have "raoui_emit_image (Some a) (Some b) width height mime s = Some s2"
      using that assms(2,3) s1(1) s2(1) by (simp add: raoui_emit_image_def c_simps push_str_def)
    moreover have "extends s ([] @ [Msg RB_MSG_IMAGE 0 ?p]) s2"
      using s1(2) s2(2) by (intro extends_trans) (simp_all add: idle_def)
    ultimately show ?thesis by simp
  qed
qed

subsection \<open>Whole calls into R\<close>

lemma callback_run_console: "callback_run s s' \<Longrightarrow> write_console s' = write_console s"
  by (simp add: callback_run_def steady_def)

text \<open>Whatever R does during a call, it only adds callback messages to the stream.\<close>

lemma run_rcall_run:
  "run_rcall t s = Some (r, s') \<Longrightarrow> live s \<Longrightarrow> write_console s = Cb_write_console_ex \<Longrightarrow> callback_run s s'"
proof (induction t arbitrary: s)
  case (R_write x otype k)
  obtain s1 where "write_console_ex x otype s = Some s1" "callback_run s s1"
    by (rule write_console_run [OF R_write.prems(2,3)])
  with R_write show ?case
    by (metis Option.bind.simps(2) callback_run_console callback_run_live callback_run_trans run_rcall.simps(3))
next
  case (R_message msg k)
  obtain s1 where "cb_show_message msg s = Some s1" "callback_run s s1"
    by (rule show_message_run [OF R_message.prems(2)])
  with R_message show ?case
    by (metis Option.bind.simps(2) callback_run_console callback_run_live callback_run_trans run_rcall.simps(5))
next
  case (R_read prompt len k)
  then obtain line s1 where s1: "cb_read_console prompt len s = Some (line, s1)" "run_rcall (k line) s1 = Some (r, s')"
    by auto
  then have "callback_run s s1" using read_console_partial R_read.prems(2) by blast
  with R_read s1 show ?case by (metis callback_run_console callback_run_live callback_run_trans rangeI)
next
  case (R_enter_passthrough k)
  then obtain s1 where s1: "raoui_enter_passthrough s = Some s1" "run_rcall k s1 = Some (r, s')" by auto
  then have "callback_run s s1" using enter_passthrough_partial R_enter_passthrough.prems(2) by blast
  with R_enter_passthrough s1 show ?case by (metis callback_run_console callback_run_live callback_run_trans)
next
  case (R_exit_passthrough k)
  obtain s1 where "raoui_exit_passthrough s = Some s1" "callback_run s s1"
    by (rule exit_passthrough_run [OF R_exit_passthrough.prems(2)])
  with R_exit_passthrough show ?case
    by (metis Option.bind.simps(2) callback_run_console callback_run_live callback_run_trans run_rcall.simps(8))
next
  case (R_emit_image a b c d e k)
  obtain s1 where "raoui_emit_image a b c d e s = Some s1" "callback_run s s1"
    by (rule emit_image_run [OF R_emit_image.prems(2)])
  with R_emit_image show ?case
    by (metis Option.bind.simps(2) callback_run_console callback_run_live callback_run_trans run_rcall.simps(9))
qed (auto simp: cb_flush_console_def callback_run_heap)

text \<open>A call that asks for no input and enters no passthrough.\<close>

primrec quiet :: "('a, 'h) rcall \<Rightarrow> bool" where
  "quiet (R_return a h) = True"
| "quiet (R_longjmp h) = True"
| "quiet (R_write txt otype k) = quiet k"
| "quiet (R_flush k) = quiet k"
| "quiet (R_message msg k) = quiet k"
| "quiet (R_read prompt len k) = False"
| "quiet (R_enter_passthrough k) = False"
| "quiet (R_exit_passthrough k) = quiet k"
| "quiet (R_emit_image src prev width height mime k) = quiet k"

lemma run_rcall_returns:
  "quiet t \<Longrightarrow> live s \<Longrightarrow> write_console s = Cb_write_console_ex \<Longrightarrow> \<exists>r s'. run_rcall t s = Some (r, s')"
proof (induction t arbitrary: s)
  case (R_write x otype k)
  obtain s1 where "write_console_ex x otype s = Some s1" "callback_run s s1"
    by (rule write_console_run [OF R_write.prems(2,3)])
  with R_write.IH [of s1] R_write.prems show ?case by (simp add: callback_run_console callback_run_live)
next
  case (R_message msg k)
  obtain s1 where "cb_show_message msg s = Some s1" "callback_run s s1"
    by (rule show_message_run [OF R_message.prems(2)])
  with R_message.IH [of s1] R_message.prems show ?case by (simp add: callback_run_console callback_run_live)
next
  case (R_exit_passthrough k)
  obtain s1 where "raoui_exit_passthrough s = Some s1" "callback_run s s1"
    by (rule exit_passthrough_run [OF R_exit_passthrough.prems(2)])
  with R_exit_passthrough.IH [of s1] R_exit_passthrough.prems show ?case
    by (simp add: callback_run_console callback_run_live)
next
  case (R_emit_image a b c d e k)
  obtain s1 where "raoui_emit_image a b c d e s = Some s1" "callback_run s s1"
    by (rule emit_image_run [OF R_emit_image.prems(2)])
  with R_emit_image.IH [of s1] R_emit_image.prems show ?case
    by (simp add: callback_run_console callback_run_live)
qed (auto simp: cb_flush_console_def)

end
