(* ===== verification/Eval.thy ===== *)
theory Eval
  imports Callback_Laws
begin

section \<open>Evaluation on the worker thread\<close>

text \<open>
  \<open>c_ffi/load_r.c\<close>: \<open>run_after_top_level_hook\<close>, \<open>process_events\<close>, \<open>eval_code\<close>,
  \<open>eval_for_string\<close>, \<open>run_completions\<close> and \<open>run_column_completions\<close>, in the order of
  the file, on the R runtime \<open>api\<close>. A result \<open>None\<close> of \<open>process_events_inner\<close> in its
  first component is a jump to top level, which skips the rest of the function.
\<close>

subsection \<open>Calls into R with their data structures\<close>

text \<open>
  \<open>safe_parse\<close> under \<open>toplevel_exec\<close>, from \<open>parse_status = PARSE_ERROR\<close> and a null
  result: a jump leaves the result null, and the status as R last stored it, if it did. The
  result is the status and the parsed expressions.
\<close>

definition exec_parse :: "('s, 'h) r_api \<Rightarrow> 's \<Rightarrow> 'h bridge \<Rightarrow> (parse_status \<times> 's ptr \<times> 'h bridge) option" where
  "exec_parse api text s = do {
     (r, s') \<leftarrow> toplevel_exec api (R_ParseVector api text (r_heap s)) s;
     Some (case r of
         None \<Rightarrow> (case R_ParseVector_stored api text (r_heap s) of None \<Rightarrow> PARSE_ERROR | Some ps \<Rightarrow> ps, None, s')
       | Some (parsed, status) \<Rightarrow> (status, parsed, s'))
   }"

text \<open>\<open>safe_eval\<close> under \<open>toplevel_exec\<close>: whether an error occurred (a jump counts as one,
  as every caller treats it) and the result.\<close>

definition exec_eval :: "('s, 'h) r_api \<Rightarrow> 's \<Rightarrow> 'h bridge \<Rightarrow> (bool \<times> 's ptr \<times> 'h bridge) option" where
  "exec_eval api expr s = do {
     (r, s') \<leftarrow> toplevel_exec api (R_tryEval api expr (r_heap s)) s;
     Some (case r of None \<Rightarrow> (True, None, s') | Some (v, err) \<Rightarrow> (err \<noteq> 0, v, s'))
   }"

text \<open>\<open>safe_print\<close> under \<open>toplevel_exec\<close>: whether it returned.\<close>

definition exec_print :: "('s, 'h) r_api \<Rightarrow> 's \<Rightarrow> 'h bridge \<Rightarrow> (bool \<times> 'h bridge) option" where
  "exec_print api v s = do {
     (r, s') \<leftarrow> toplevel_exec api (Rf_PrintValue api v (r_heap s)) s;
     Some (r \<noteq> None, s')
   }"

text \<open>An R function that allocates: a value and the new heap.\<close>

definition alloc :: "('h \<Rightarrow> 's \<times> 'h) \<Rightarrow> 'h bridge \<Rightarrow> 's \<times> 'h bridge" where
  "alloc f s = (let (v, h) = f (r_heap s) in (v, s\<lparr>r_heap := h\<rparr>))"

definition or_nil :: "('s, 'h) r_api \<Rightarrow> 's ptr \<Rightarrow> 's" where
  "or_nil api p = (case p of None \<Rightarrow> R_NilValue api | Some v \<Rightarrow> v)"

subsection \<open>The hook after each top-level expression\<close>

definition run_after_top_level_hook :: "('s, 'h) r_api \<Rightarrow> 'h bridge \<Rightarrow> 'h bridge option" where
  "run_after_top_level_hook api s =
     (if Rf_findVar api (raoui_after_top_level_sym api) (R_GlobalEnv api) (r_heap s) = R_UnboundValue api
      then Some s
      else do {
        let (hook_call, s1) = alloc (Rf_lang1 api (raoui_after_top_level_sym api)) s;
        let s2 = protect s1;
        (_, _, s3) \<leftarrow> exec_eval api hook_call s2;
        unprotect 1 s3
      })"

subsection \<open>Event processing\<close>

definition process_events_inner :: "('s, 'h) r_api \<Rightarrow> 'h bridge \<Rightarrow> (unit option \<times> 'h bridge) option" where
  "process_events_inner api s = do {
     (r, s1) \<leftarrow> (case R_ProcessEvents_fn api of
                  None \<Rightarrow> Some (Some (), s)
                | Some f \<Rightarrow> run_rcall (f (r_heap s)) s);
     (case r of
        None \<Rightarrow> Some (None, s1)
      | Some _ \<Rightarrow>
          (case (R_checkActivity_fn api, R_runHandlers_fn api, R_InputHandlers_ptr api) of
             (Some check, Some handlers, True) \<Rightarrow>
               if check (r_heap s1) then run_rcall (handlers (r_heap s1)) s1 else Some (Some (), s1)
           | _ \<Rightarrow> Some (Some (), s1)))
   }"

text \<open>Only under \<open>R_ToplevelExec\<close>, so a jump out of a handler ends the processing; the
  outcome is not looked at.\<close>

definition process_events :: "('s, 'h) r_api \<Rightarrow> 'h bridge \<Rightarrow> 'h bridge option" where
  "process_events api s =
     (if R_ToplevelExec_fn api then map_option snd (process_events_inner api s) else Some s)"

subsection \<open>Evaluating a submitted command\<close>

definition parse_error_text :: "parse_status \<Rightarrow> byte list" where
  "parse_error_text status =
     (case status of
        PARSE_INCOMPLETE \<Rightarrow> bytes ''Parse error: incomplete expression''
      | PARSE_ERROR \<Rightarrow> bytes ''Parse error''
      | _ \<Rightarrow> bytes ''Parse error: unknown'')"

text \<open>The loop over the expressions with the indices still to do; the result is
  \<open>error_occurred\<close>.\<close>

fun eval_loop :: "('s, 'h) r_api \<Rightarrow> 's \<Rightarrow> nat list \<Rightarrow> 'h bridge \<Rightarrow> (bool \<times> 'h bridge) option" where
  "eval_loop api parsed [] s = Some (False, s)"
| "eval_loop api parsed (i # is) s = do {
     let expr = VECTOR_ELT_fn api parsed i (r_heap s);
     let (wv_call, s1) = alloc (Rf_lang2 api (withVisible_sym api) expr) s;
     let s2 = protect s1;
     (error_occurred, result, s3) \<leftarrow> exec_eval api wv_call s2;
     let wv_result = or_nil api result;
     let s4 = protect s3;
     (if error_occurred then do {
        s5 \<leftarrow> unprotect 2 s4;
        s6 \<leftarrow> interfere s5;
        s7 \<leftarrow> push RB_MSG_R_ERROR (Some []) 0 s6;
        Some (True, s7)
      }
      else do {
        let v = VECTOR_ELT_fn api wv_result 0 (r_heap s4);
        let visible = VECTOR_ELT_fn api wv_result 1 (r_heap s4);
        (if Rf_asLogical api visible (r_heap s4) \<noteq> 0 then do {
           let s5 = protect s4;
           (printed, s6) \<leftarrow> exec_print api v s5;
           (if \<not> printed then do {
              s7 \<leftarrow> unprotect 3 s6;
              s8 \<leftarrow> interfere s7;
              s9 \<leftarrow> push RB_MSG_R_ERROR (Some []) 0 s8;
              Some (True, s9)
            }
            else do {
              s7 \<leftarrow> unprotect 1 s6;
              s8 \<leftarrow> run_after_top_level_hook api s7;
              s9 \<leftarrow> unprotect 2 s8;
              eval_loop api parsed is s9
            })
         }
         else do {
           s5 \<leftarrow> run_after_top_level_hook api s4;
           s6 \<leftarrow> unprotect 2 s5;
           eval_loop api parsed is s6
         })
      })
   }"

definition eval_code :: "('s, 'h) r_api \<Rightarrow> cstring \<Rightarrow> 'h bridge \<Rightarrow> (int \<times> 'h bridge) option" where
  "eval_code api code s = do {
     _ \<leftarrow> R_interrupts_pending s;
     let s1 = s\<lparr>R_interrupts_pending := Some 0\<rparr>;
     let (code_sexp, s2) = alloc (Rf_mkString api code) s1;
     let s3 = protect s2;
     (parse_status, result, s4) \<leftarrow> exec_parse api code_sexp s3;
     let parsed = or_nil api result;
     let s5 = protect s4;
     (if parse_status \<noteq> PARSE_OK then do {
        s6 \<leftarrow> interfere s5;
        s7 \<leftarrow> push_str RB_MSG_R_ERROR (parse_error_text parse_status) s6;
        s8 \<leftarrow> interfere s7;
        s9 \<leftarrow> push RB_MSG_DONE None 0 s8;
        s10 \<leftarrow> unprotect 2 s9;
        Some (-1, s10)
      }
      else do {
        let n = nat (Rf_length_fn api parsed (r_heap s5));
        (error_occurred, s6) \<leftarrow> eval_loop api parsed [0..<n] s5;
        s7 \<leftarrow> interfere s6;
        s8 \<leftarrow> push RB_MSG_DONE None 0 s7;
        s9 \<leftarrow> unprotect 2 s8;
        Some (if error_occurred then -1 else 0, s9)
      })
   }"

subsection \<open>Evaluating for a string\<close>

text \<open>The loop's result: \<open>None\<close> after an error, otherwise the last value (null if R gave
  none).\<close>

fun eval_string_loop :: "('s, 'h) r_api \<Rightarrow> 's \<Rightarrow> nat list \<Rightarrow> 's ptr \<Rightarrow> 'h bridge \<Rightarrow>
    ('s ptr option \<times> 'h bridge) option" where
  "eval_string_loop api parsed [] result s = Some (Some result, s)"
| "eval_string_loop api parsed (i # is) result s = do {
     (err, v, s1) \<leftarrow> exec_eval api (VECTOR_ELT_fn api parsed i (r_heap s)) s;
     (if err then Some (None, s1) else eval_string_loop api parsed is v s1)
   }"

definition eval_for_string :: "('s, 'h) r_api \<Rightarrow> cstring \<Rightarrow> 'h bridge \<Rightarrow> (cstring ptr \<times> 'h bridge) option" where
  "eval_for_string api code s = do {
     let (code_sexp, s1) = alloc (Rf_mkString api code) s;
     let s2 = protect s1;
     (ps, result, s3) \<leftarrow> exec_parse api code_sexp s2;
     let parsed = or_nil api result;
     let s4 = protect s3;
     (if ps \<noteq> PARSE_OK then do { s5 \<leftarrow> unprotect 2 s4; Some (None, s5) }
      else do {
        let n = nat (Rf_length_fn api parsed (r_heap s4));
        (r, s5) \<leftarrow> eval_string_loop api parsed [0..<n] (Some (R_NilValue api)) s4;
        (case r of
           None \<Rightarrow> do { s6 \<leftarrow> unprotect 2 s5; Some (None, s6) }
         | Some p \<Rightarrow> do {
             v \<leftarrow> p;
             let s6 = protect s5;
             let (char_sexp, s7) = alloc (Rf_asChar api v) s6;
             let s8 = protect s7;
             let str = R_CHAR_fn api char_sexp (r_heap s8);
             s9 \<leftarrow> unprotect 4 s8;
             Some (Some str, s9)
           })
      })
   }"

subsection \<open>Completions\<close>

text \<open>Binding a C string to a variable of R's global environment.\<close>

definition define_string :: "('s, 'h) r_api \<Rightarrow> cstring \<Rightarrow> cstring \<Rightarrow> 'h bridge \<Rightarrow> 'h bridge option" where
  "define_string api name x s = do {
     let (sym, s1) = alloc (Rf_install api name) s;
     let (v, s2) = alloc (Rf_mkString api x) s1;
     let s3 = protect s2;
     let s4 = s3\<lparr>r_heap := Rf_defineVar api sym v (R_GlobalEnv api) (r_heap s3)\<rparr>;
     unprotect 1 s4
   }"

definition completion_code :: "int \<Rightarrow> byte list" where
  "completion_code cursor_pos = bytes (
     ''local({'' @
     ''  utils:::.assignLinebuffer(.raoui_compl);'' @
     ''  utils:::.assignEnd('' @ decimal cursor_pos @ ''L);'' @
     ''  utils:::.guessTokenFromLine();'' @
     ''  utils:::.completeToken();'' @
     ''  token <- get('' @ [CHR 39] @ ''token'' @ [CHR 39] @ '', envir=utils:::.CompletionEnv);'' @
     ''  comps <- utils:::.retrieveCompletions();'' @
     ''  paste0(c(token, comps), collapse='' @ [CHR 34, CHR 92] @ ''n'' @ [CHR 34] @ '')'' @
     ''})'')"

text \<open>Both completion requests end the same way: the result, or an empty message.\<close>

definition push_completions :: "cstring ptr \<Rightarrow> 'h bridge \<Rightarrow> 'h bridge option" where
  "push_completions result s = do {
     s1 \<leftarrow> interfere s;
     (case result of
        Some x \<Rightarrow> push_str RB_MSG_COMPLETIONS x s1
      | None \<Rightarrow> push RB_MSG_COMPLETIONS (Some []) 0 s1)
   }"

definition run_completions :: "('s, 'h) r_api \<Rightarrow> cstring \<Rightarrow> int \<Rightarrow> 'h bridge \<Rightarrow> 'h bridge option" where
  "run_completions api line cursor_pos s = do {
     s1 \<leftarrow> define_string api (bytes ''.raoui_compl'') line s;
     let (_, code) = snprintf 512 (completion_code cursor_pos);
     (result, s2) \<leftarrow> eval_for_string api code s1;
     push_completions result s2
   }"

definition column_code :: "byte list" where
  "column_code = bytes (
     ''local({'' @
     ''  object_name <- .raoui_column_object;'' @
     ''  cols <- tryCatch({'' @
     ''    obj <- get(object_name, envir=.GlobalEnv, inherits=TRUE);'' @
     ''    if (is.data.frame(obj)) names(obj) else character();'' @
     ''  }, error=function(e) character());'' @
     ''  paste0(c('' @ [CHR 39, CHR 39] @ '', cols), collapse='' @ [CHR 39, CHR 92] @ ''n'' @ [CHR 39] @ '')'' @
     ''})'')"

definition run_column_completions :: "('s, 'h) r_api \<Rightarrow> cstring \<Rightarrow> 'h bridge \<Rightarrow> 'h bridge option" where
  "run_column_completions api object_name s = do {
     s1 \<leftarrow> define_string api (bytes ''.raoui_column_object'') object_name s;
     (result, s2) \<leftarrow> eval_for_string api column_code s1;
     push_completions result s2
   }"

end
