(* ===== verification/Eval_Laws.thy ===== *)
theory Eval_Laws
  imports Eval
begin

section \<open>What an evaluation guarantees\<close>

text \<open>
  Every evaluation ends its part of the stream with exactly one end marker, reports an error by
  one error message, and leaves R's protection stack as it found it, whatever R calls back and
  however the frontend interleaves.
\<close>

subsection \<open>Emitting messages at a given protection depth\<close>

text \<open>\<open>emits s ms d s'\<close>: the worker got from \<open>s\<close> to \<open>s'\<close> by pushing \<open>ms\<close>, and the
  protection stack is now \<open>d\<close> high.\<close>

definition emits :: "'h bridge \<Rightarrow> msg list \<Rightarrow> nat \<Rightarrow> 'h bridge \<Rightarrow> bool" where
  "emits s ms d s' \<longleftrightarrow> extends s ms s' \<and> steady s' = steady (s\<lparr>protect_depth := d\<rparr>)"

lemma emits_live: "emits s ms d s' \<Longrightarrow> live s'"
  by (auto simp: emits_def extends_def)

lemma emits_depth: "emits s ms d s' \<Longrightarrow> protect_depth s' = d"
  by (simp add: emits_def steady_def)

lemma emits_console: "emits s ms d s' \<Longrightarrow> write_console s' = write_console s"
  by (simp add: emits_def steady_def)

lemma emits_refl: "live s \<Longrightarrow> emits s [] (protect_depth s) s"
  by (simp add: emits_def extends_refl)

lemma emits_trans: "emits s ms d s' \<Longrightarrow> emits s' ns e s'' \<Longrightarrow> emits s (ms @ ns) e s''"
  unfolding emits_def by (auto simp: steady_def intro: extends_trans)

lemma emits_cong:
  assumes "emits s ms d s'" "g_rb t = g_rb s'" "frontend_log t = frontend_log s'" "ui t = ui s'"
    "readline_input_buf t = readline_input_buf s'" "pushed t = pushed s'" "steady t = steady (s'\<lparr>protect_depth := e\<rparr>)"
  shows "emits s ms e t"
  using assms(1,7) extends_cong [OF assms(2-6)] by (simp add: emits_def steady_def)

lemma emits_local:
  assumes "emits s ms d s'"
  shows "emits s ms d (s'\<lparr>r_heap := h\<rparr>)" "emits s ms d (s'\<lparr>R_interrupts_pending := p\<rparr>)"
    "emits s ms (Suc d) (protect s')"
  using emits_depth [OF assms]
  by (auto intro!: emits_cong [OF assms] simp: steady_def protect_def)

lemma emits_alloc: "emits s ms d s' \<Longrightarrow> emits s ms d (snd (alloc f s'))"
  by (simp add: alloc_def split_beta emits_local)

lemma emits_unprotect:
  assumes "emits s ms (d + n) s'"
  shows "unprotect n s' = Some (s'\<lparr>protect_depth := d\<rparr>)" "emits s ms d (s'\<lparr>protect_depth := d\<rparr>)"
  using emits_depth [OF assms]
  by (auto intro!: emits_cong [OF assms] simp: unprotect_def steady_def)

lemma emits_interfere:
  assumes "emits s ms d s'"
  obtains s'' where "interfere s' = Some s''" "emits s ms d s''" "r_heap s'' = r_heap s'"
proof -
  obtain s'' where s'': "interfere s' = Some s''" "extends s' [] s''" "own s'' = own s'"
    by (rule interfere_extends [OF emits_live [OF assms]])
  then have "emits s' [] d s''" using emits_depth [OF assms] by (simp add: emits_def own_def steady_def)
  from emits_trans [OF assms this] s''(1,3) that show thesis by (simp add: own_def)
qed

text \<open>Let the others run, then push: a message without payload, or a string.\<close>

lemma emits_push:
  assumes "emits s ms d s'"
  obtains s1 s'' where "interfere s' = Some s1" "push kind data 0 s1 = Some s''"
    "emits s (ms @ [Msg kind 0 []]) d s''" "last (stream s'') = wire_msg (Msg kind 0 [])" "stream s'' \<noteq> []"
    "r_heap s'' = r_heap s'"
proof -
  obtain s1 where s1: "interfere s' = Some s1" "emits s ms d s1" "r_heap s1 = r_heap s'"
    by (rule emits_interfere [OF assms])
  obtain s2 where s2: "push kind data 0 s1 = Some s2" "extends s1 [Msg kind 0 []] s2" "own s2 = own s1"
    "stream s2 \<noteq> []" "last (stream s2) = wire_msg (Msg kind 0 [])"
    by (rule push_empty_extends [OF emits_live [OF s1(2)]])
  then have "emits s1 [Msg kind 0 []] d s2" using emits_depth [OF s1(2)] by (simp add: emits_def own_def steady_def)
  moreover have "r_heap s2 = r_heap s'" using s1(3) s2(3) by (simp add: own_def)
  ultimately show thesis using that [OF s1(1) s2(1) emits_trans [OF s1(2)]] s2(4,5) by simp
qed

lemma emits_push_str:
  assumes "emits s ms d s'"
  obtains s1 s'' where "interfere s' = Some s1" "push_str kind x s1 = Some s''"
    "emits s (ms @ [Msg kind 0 (wire x)]) d s''"
    "last (stream s'') = wire_msg (stored cap (Msg kind 0 (wire x)))" "stream s'' \<noteq> []"
    "r_heap s'' = r_heap s'"
proof -
  obtain s1 where s1: "interfere s' = Some s1" "emits s ms d s1" "r_heap s1 = r_heap s'"
    by (rule emits_interfere [OF assms])
  obtain s2 where s2: "push_str kind x s1 = Some s2" "extends s1 [Msg kind 0 (wire x)] s2" "own s2 = own s1"
    "stream s2 \<noteq> []" "last (stream s2) = wire_msg (stored cap (Msg kind 0 (wire x)))"
    by (rule push_str_extends [OF emits_live [OF s1(2)]])
  then have "emits s1 [Msg kind 0 (wire x)] d s2" using emits_depth [OF s1(2)] by (simp add: emits_def own_def steady_def)
  moreover have "r_heap s2 = r_heap s'" using s1(3) s2(3) by (simp add: own_def)
  ultimately show thesis using that [OF s1(1) s2(1) emits_trans [OF s1(2)]] s2(4,5) by simp
qed

subsection \<open>Calls into R\<close>

text \<open>\<open>chatter ms\<close>: only messages that callbacks push.\<close>

definition chatter :: "msg list \<Rightarrow> bool" where
  "chatter ms \<longleftrightarrow> (\<forall>m \<in> set ms. mkind m \<in> callback_kinds)"

lemma chatter_simps [simp]: "chatter []" "chatter (ms @ ns) \<longleftrightarrow> chatter ms \<and> chatter ns"
  by (auto simp: chatter_def)

lemma emits_call:
  assumes "emits s ms d s'" "write_console s = Cb_write_console_ex" "toplevel_exec api t s' = Some (r, s'')"
  obtains ns where "chatter ns" "emits s (ms @ ns) d s''"
proof -
  have "run_rcall t s' = Some (r, s'')"
    using assms(3) by (auto simp: toplevel_exec_def split: if_splits)
  then have "callback_run s' s''"
    using run_rcall_run emits_live [OF assms(1)] emits_console [OF assms(1)] assms(2) by metis
  then obtain ns where "chatter ns" "emits s' ns d s''"
    using emits_depth [OF assms(1)] by (auto simp: callback_run_def emits_def chatter_def)
  with that emits_trans [OF assms(1)] show thesis by blast
qed

lemma exec_parse_emits:
  assumes "exec_parse api x s' = Some (ps, v, s'')" "emits s ms d s'" "write_console s = Cb_write_console_ex"
  obtains ns where "chatter ns" "emits s (ms @ ns) d s''"
proof -
  obtain r where "toplevel_exec api (R_ParseVector api x (r_heap s')) s' = Some (r, s'')"
    using assms(1) by (auto simp: exec_parse_def split: option.splits)
  from emits_call [OF assms(2,3) this] that show thesis by blast
qed

lemma exec_eval_emits:
  assumes "exec_eval api x s' = Some (err, v, s'')" "emits s ms d s'" "write_console s = Cb_write_console_ex"
  obtains ns where "chatter ns" "emits s (ms @ ns) d s''"
proof -
  obtain r where "toplevel_exec api (R_tryEval api x (r_heap s')) s' = Some (r, s'')"
    using assms(1) by (auto simp: exec_eval_def split: option.splits)
  from emits_call [OF assms(2,3) this] that show thesis by blast
qed

lemma exec_print_emits:
  assumes "exec_print api x s' = Some (ok, s'')" "emits s ms d s'" "write_console s = Cb_write_console_ex"
  obtains ns where "chatter ns" "emits s (ms @ ns) d s''"
proof -
  obtain r where "toplevel_exec api (Rf_PrintValue api x (r_heap s')) s' = Some (r, s'')"
    using assms(1) by (auto simp: exec_print_def)
  from emits_call [OF assms(2,3) this] that show thesis by blast
qed

lemma hook_emits:
  assumes "run_after_top_level_hook api s' = Some s''" "emits s ms d s'" "write_console s = Cb_write_console_ex"
  obtains ns where "chatter ns" "emits s (ms @ ns) d s''"
proof (cases "Rf_findVar api (raoui_after_top_level_sym api) (R_GlobalEnv api) (r_heap s') = R_UnboundValue api")
  case True
  with assms that [of "[]"] show thesis by (simp add: run_after_top_level_hook_def)
next
  case False
  let ?a = "alloc (Rf_lang1 api (raoui_after_top_level_sym api)) s'"
  obtain err v s3 where e: "exec_eval api (fst ?a) (protect (snd ?a)) = Some (err, v, s3)" "unprotect 1 s3 = Some s''"
    using assms(1) False by (auto simp: run_after_top_level_hook_def split_beta)
  have "emits s ms (Suc d) (protect (snd ?a))" by (intro emits_local emits_alloc assms(2))
  from exec_eval_emits [OF e(1) this assms(3)] obtain ns where ns: "chatter ns" "emits s (ms @ ns) (d + 1) s3"
    by auto
  with emits_unprotect [OF ns(2)] e(2) that show thesis by auto
qed

end
