(* ===== verification/Eval_Protocol.thy ===== *)
theory Eval_Protocol
  imports Eval_Laws
begin

section \<open>The evaluation protocol\<close>

text \<open>
  The messages of a whole evaluation and of a completion request, the protection stack across
  them, and that they return when R's calls do.
\<close>

subsection \<open>The loop over the expressions\<close>

abbreviation r_error :: msg where "r_error \<equiv> Msg RB_MSG_R_ERROR 0 []"
abbreviation done_msg :: msg where "done_msg \<equiv> Msg RB_MSG_DONE 0 []"

text \<open>The error branches: drop \<open>n\<close> protections, then report.\<close>

lemma error_exit:
  assumes "emits s ms (d + n) s'"
  obtains s1 s2 s3 where "unprotect n s' = Some s1" "interfere s1 = Some s2"
    "push RB_MSG_R_ERROR (Some []) 0 s2 = Some s3" "emits s (ms @ [r_error]) d s3"
  using emits_unprotect [OF assms] emits_push [OF emits_unprotect(2) [OF assms]] that by metis

text \<open>The end of a successful iteration: the hook, then the last two protections.\<close>

lemma hook_exit:
  assumes "emits s ms (d + 2) s'" "write_console s = Cb_write_console_ex"
    "run_after_top_level_hook api s' = Some s1" "unprotect 2 s1 = Some s2"
  obtains ns where "chatter ns" "emits s (ms @ ns) d s2"
proof -
  obtain ns where ns: "chatter ns" "emits s (ms @ ns) (d + 2) s1"
    by (rule hook_emits [OF assms(3,1,2)])
  with emits_unprotect [OF ns(2)] assms(4) that show thesis by simp
qed

text \<open>One iteration, once the expression has been evaluated.\<close>

lemma eval_loop_step:
  assumes "exec_eval api (fst (alloc (Rf_lang2 api (withVisible_sym api) (VECTOR_ELT_fn api parsed i (r_heap s))) s))
      (protect (snd (alloc (Rf_lang2 api (withVisible_sym api) (VECTOR_ELT_fn api parsed i (r_heap s))) s)))
    = Some (err, result, s3)"
  defines "s4 \<equiv> protect s3"
  shows "eval_loop api parsed (i # is) s =
    (if err then do { s5 \<leftarrow> unprotect 2 s4; s6 \<leftarrow> interfere s5; s7 \<leftarrow> push RB_MSG_R_ERROR (Some []) 0 s6;
        Some (True, s7) }
     else if Rf_asLogical api (VECTOR_ELT_fn api (or_nil api result) 1 (r_heap s4)) (r_heap s4) \<noteq> 0 then do {
        (printed, s6) \<leftarrow> exec_print api (VECTOR_ELT_fn api (or_nil api result) 0 (r_heap s4)) (protect s4);
        (if \<not> printed then do { s7 \<leftarrow> unprotect 3 s6; s8 \<leftarrow> interfere s7;
           s9 \<leftarrow> push RB_MSG_R_ERROR (Some []) 0 s8; Some (True, s9) }
         else do { s7 \<leftarrow> unprotect 1 s6; s8 \<leftarrow> run_after_top_level_hook api s7; s9 \<leftarrow> unprotect 2 s8;
           eval_loop api parsed is s9 }) }
     else do { s5 \<leftarrow> run_after_top_level_hook api s4; s6 \<leftarrow> unprotect 2 s5; eval_loop api parsed is s6 })"
  by (simp only: eval_loop.simps Let_def split_beta assms Option.bind.simps fst_conv snd_conv)

lemma eval_loop_emits:
  assumes "eval_loop api parsed is s' = Some (e, s'')" "emits s ms d s'" "write_console s = Cb_write_console_ex"
  shows "\<exists>ns. chatter ns \<and> emits s (ms @ ns @ (if e then [r_error] else [])) d s''"
  using assms(1,2)
proof (induction "is" arbitrary: s' ms)
  case Nil
  then show ?case by (auto intro!: exI [of _ "[]"])
next
  case (Cons i "is")
  let ?a = "alloc (Rf_lang2 api (withVisible_sym api) (VECTOR_ELT_fn api parsed i (r_heap s'))) s'"
  obtain err result s3 where ev: "exec_eval api (fst ?a) (protect (snd ?a)) = Some (err, result, s3)"
    using Cons.prems(1) by (auto simp: split_beta Let_def)
  have "emits s ms (Suc d) (protect (snd ?a))" by (intro emits_local emits_alloc Cons.prems)
  from exec_eval_emits [OF ev this assms(3)] obtain n1 where n1: "chatter n1" "emits s (ms @ n1) (Suc d) s3" .
  note step = Cons.prems(1) [unfolded eval_loop_step [OF ev]]
  let ?s4 = "protect s3"
  have s4: "emits s (ms @ n1) (d + 2) ?s4" using emits_local(3) [OF n1(2)] by simp
  have rest: "\<exists>ns. chatter ns \<and> emits s (ms @ ns @ (if e then [r_error] else [])) d s''"
    if h: "chatter n2" "emits s (ms @ n1 @ n2) (d + 2) s5" "run_after_top_level_hook api s5 = Some s6"
      "unprotect 2 s6 = Some s7" "eval_loop api parsed is s7 = Some (e, s'')" for n2 s5 s6 s7
  proof -
    obtain n3 where n3: "chatter n3" "emits s ((ms @ n1 @ n2) @ n3) d s7"
      by (rule hook_exit [OF h(2) assms(3) h(3,4)])
    from Cons.IH [OF h(5) n3(2)] n1(1) h(1) n3(1) show ?thesis
      by (metis append.assoc chatter_simps(2))
  qed
  consider "err" | "\<not> err" "Rf_asLogical api (VECTOR_ELT_fn api (or_nil api result) 1 (r_heap ?s4)) (r_heap ?s4) = 0"
    | "\<not> err" "Rf_asLogical api (VECTOR_ELT_fn api (or_nil api result) 1 (r_heap ?s4)) (r_heap ?s4) \<noteq> 0" by blast
  then show ?case
  proof cases
    case 1
    obtain t1 t2 t3 where t: "unprotect 2 ?s4 = Some t1" "interfere t1 = Some t2"
      "push RB_MSG_R_ERROR (Some []) 0 t2 = Some t3" "emits s ((ms @ n1) @ [r_error]) d t3"
      by (rule error_exit [OF s4])
    with step 1 have "e" "s'' = t3" by simp_all
    with t(4) n1(1) show ?thesis by auto
  next
    case 2
    with step rest [of "[]" ?s4] s4 show ?thesis by auto
  next
    case 3
    let ?v = "VECTOR_ELT_fn api (or_nil api result) 0 (r_heap ?s4)"
    from step 3 obtain printed s6 where pr: "exec_print api ?v (protect ?s4) = Some (printed, s6)" by auto
    obtain n2 where n2: "chatter n2" "emits s ((ms @ n1) @ n2) (Suc (d + 2)) s6"
      by (rule exec_print_emits [OF pr emits_local(3) [OF s4] assms(3)])
    then have n2': "emits s ((ms @ n1) @ n2) (d + 3) s6" "emits s (ms @ n1 @ n2) (d + 2 + 1) s6"
      by (simp_all add: numeral_3_eq_3)
    show ?thesis
    proof (cases printed)
      case True
      from emits_unprotect [OF n2'(2)] rest [OF n2(1)] step 3 pr True show ?thesis by auto
    next
      case False
      obtain t1 t2 t3 where t: "unprotect 3 s6 = Some t1" "interfere t1 = Some t2"
        "push RB_MSG_R_ERROR (Some []) 0 t2 = Some t3" "emits s (((ms @ n1) @ n2) @ [r_error]) d t3"
        by (rule error_exit [OF n2'(1)])
      with step 3 pr False have "e" "s'' = t3" by simp_all
      with t(4) n1(1) n2(1) show ?thesis by (auto intro!: exI [of _ "n1 @ n2"])
    qed
  qed
qed

subsection \<open>A submitted command\<close>

lemma eval_code_emits:
  assumes "eval_code api code s = Some (rc, s')" "live s" "write_console s = Cb_write_console_ex"
  obtains ns err where "chatter ns" "emits s (ns @ err @ [done_msg]) (protect_depth s) s'"
    "last (stream s') = wire_msg done_msg" "stream s' \<noteq> []"
    "rc = 0 \<and> err = [] \<or> rc = -1 \<and> (\<exists>x. err = [Msg RB_MSG_R_ERROR 0 x])"
proof -
  let ?d = "protect_depth s"
  let ?a = "alloc (Rf_mkString api code) (s\<lparr>R_interrupts_pending := Some 0\<rparr>)"
  obtain ps result s4 where pa: "exec_parse api (fst ?a) (protect (snd ?a)) = Some (ps, result, s4)"
    using assms(1) by (auto simp: eval_code_def split_beta Let_def)
  have "emits s [] (Suc ?d) (protect (snd ?a))" by (intro emits_local emits_alloc emits_refl assms(2))
  from exec_parse_emits [OF pa this assms(3)] obtain n1 where n1: "chatter n1" "emits s n1 (Suc ?d) s4" by auto
  let ?s5 = "protect s4"
  have s5: "emits s n1 (?d + 2) ?s5" using emits_local(3) [OF n1(2)] by simp
  show thesis
  proof (cases "ps = PARSE_OK")
    case False
    obtain s6 s7 where e: "interfere ?s5 = Some s6"
      "push_str RB_MSG_R_ERROR (parse_error_text ps) s6 = Some s7"
      "emits s (n1 @ [Msg RB_MSG_R_ERROR 0 (wire (parse_error_text ps))]) (?d + 2) s7"
      by (rule emits_push_str [OF s5])
    obtain s8 s9 where d: "interfere s7 = Some s8" "push RB_MSG_DONE None 0 s8 = Some s9"
      "emits s ((n1 @ [Msg RB_MSG_R_ERROR 0 (wire (parse_error_text ps))]) @ [done_msg]) (?d + 2) s9"
      "last (stream s9) = wire_msg done_msg" "stream s9 \<noteq> []" by (rule emits_push [OF e(3)])
    from assms(1) pa False e(1,2) d(1,2) emits_unprotect [OF d(3)]
    have "rc = -1" "s' = s9\<lparr>protect_depth := ?d\<rparr>"
      by (auto simp: eval_code_def split_beta Let_def)
    with that [OF n1(1), of "[Msg RB_MSG_R_ERROR 0 (wire (parse_error_text ps))]"] d(4,5) emits_unprotect(2) [OF d(3)]
    show thesis by (simp add: stream_def)
  next
    case True
    obtain e s6 where lp: "eval_loop api (or_nil api result)
        [0..<nat (Rf_length_fn api (or_nil api result) (r_heap ?s5))] ?s5 = Some (e, s6)"
      using assms(1) pa True by (auto simp: eval_code_def split_beta Let_def)
    from eval_loop_emits [OF this s5 assms(3)] obtain n2
      where n2: "chatter n2" "emits s (n1 @ n2 @ (if e then [r_error] else [])) (?d + 2) s6" by auto
    obtain s7 s8 where d: "interfere s6 = Some s7" "push RB_MSG_DONE None 0 s7 = Some s8"
      "emits s ((n1 @ n2 @ (if e then [r_error] else [])) @ [done_msg]) (?d + 2) s8"
      "last (stream s8) = wire_msg done_msg" "stream s8 \<noteq> []" by (rule emits_push [OF n2(2)])
    from assms(1) pa True lp d(1,2) emits_unprotect [OF d(3)]
    have "rc = (if e then -1 else 0)" "s' = s8\<lparr>protect_depth := ?d\<rparr>"
      by (auto simp: eval_code_def split_beta Let_def)
    with that [of "n1 @ n2" "if e then [r_error] else []"] n1(1) n2(1) d(4,5) emits_unprotect(2) [OF d(3)]
    show thesis by (simp add: stream_def split: if_splits)
  qed
qed

subsection \<open>Evaluation for a string, and completions\<close>

lemma eval_string_loop_emits:
  assumes "eval_string_loop api parsed is r s' = Some (v, s'')" "emits s ms d s'" "write_console s = Cb_write_console_ex"
  shows "\<exists>ns. chatter ns \<and> emits s (ms @ ns) d s''"
  using assms(1,2)
proof (induction "is" arbitrary: r s' ms)
  case Nil
  then show ?case by (auto intro!: exI [of _ "[]"])
next
  case (Cons i "is")
  then obtain err w s1 where e: "exec_eval api (VECTOR_ELT_fn api parsed i (r_heap s')) s' = Some (err, w, s1)"
    "(if err then Some (None, s1) else eval_string_loop api parsed is w s1) = Some (v, s'')" by auto
  obtain n1 where n1: "chatter n1" "emits s (ms @ n1) d s1" by (rule exec_eval_emits [OF e(1) Cons.prems(2) assms(3)])
  show ?case
  proof (cases err)
    case True
    with e(2) n1 show ?thesis by auto
  next
    case False
    with e(2) Cons.IH [OF _ n1(2)] obtain n2 where "chatter n2" "emits s ((ms @ n1) @ n2) d s''" by auto
    with n1(1) show ?thesis by (metis append.assoc chatter_simps(2))
  qed
qed

lemma eval_for_string_emits:
  assumes "eval_for_string api code s' = Some (v, s'')" "emits s ms d s'" "write_console s = Cb_write_console_ex"
  obtains ns where "chatter ns" "emits s (ms @ ns) d s''"
proof -
  let ?a = "alloc (Rf_mkString api code) s'"
  obtain ps result s3 where pa: "exec_parse api (fst ?a) (protect (snd ?a)) = Some (ps, result, s3)"
    using assms(1) by (auto simp: eval_for_string_def split_beta Let_def)
  have "emits s ms (Suc d) (protect (snd ?a))" by (intro emits_local emits_alloc assms(2))
  from exec_parse_emits [OF pa this assms(3)] obtain n1 where n1: "chatter n1" "emits s (ms @ n1) (Suc d) s3" by auto
  let ?s4 = "protect s3"
  have s4: "emits s (ms @ n1) (d + 2) ?s4" using emits_local(3) [OF n1(2)] by simp
  show thesis
  proof (cases "ps = PARSE_OK")
    case False
    with assms(1) pa emits_unprotect [OF s4] that [OF n1(1)] show thesis
      by (auto simp: eval_for_string_def split_beta Let_def)
  next
    case True
    then obtain r s5 where lp: "eval_string_loop api (or_nil api result)
        [0..<nat (Rf_length_fn api (or_nil api result) (r_heap ?s4))] (Some (R_NilValue api)) ?s4 = Some (r, s5)"
      using assms(1) pa by (auto simp: eval_for_string_def split_beta Let_def)
    from eval_string_loop_emits [OF this s4 assms(3)] obtain n2
      where n2: "chatter n2" "emits s ((ms @ n1) @ n2) (d + 2) s5" by auto
    show thesis
    proof (cases r)
      case None
      with assms(1) pa True lp emits_unprotect [OF n2(2)] that [of "n1 @ n2"] n1(1) n2(1) show thesis
        by (auto simp: eval_for_string_def split_beta Let_def)
    next
      case (Some p)
      then obtain w where w: "p = Some w"
        using assms(1) pa True lp by (auto simp: eval_for_string_def split_beta Let_def)
      let ?s8 = "protect (snd (alloc (Rf_asChar api w) (protect s5)))"
      have "emits s ((ms @ n1) @ n2) (Suc (Suc (d + 2))) ?s8" by (intro emits_local emits_alloc n2(2))
      then have s8: "emits s ((ms @ n1) @ n2) (d + 4) ?s8" by (simp add: eval_nat_numeral)
      from assms(1) pa True lp Some w emits_unprotect [OF s8] have "s'' = ?s8\<lparr>protect_depth := d\<rparr>"
        by (auto simp: eval_for_string_def split_beta Let_def)
      with emits_unprotect(2) [OF s8] that [of "n1 @ n2"] n1(1) n2(1) show thesis by simp
    qed
  qed
qed

lemma define_string_emits:
  assumes "emits s ms d s'"
  obtains s'' where "define_string api name x s' = Some s''" "emits s ms d s''"
proof -
  let ?s2 = "snd (alloc (Rf_mkString api x) (snd (alloc (Rf_install api name) s')))"
  let ?s4 = "(protect ?s2)\<lparr>r_heap := Rf_defineVar api (fst (alloc (Rf_install api name) s'))
    (fst (alloc (Rf_mkString api x) (snd (alloc (Rf_install api name) s')))) (R_GlobalEnv api) (r_heap (protect ?s2))\<rparr>"
  have "emits s ms (Suc d) ?s4" by (intro emits_local emits_alloc assms)
  then have s4: "emits s ms (d + 1) ?s4" by simp
  have "define_string api name x s' = unprotect 1 ?s4" by (simp add: define_string_def split_beta Let_def)
  with emits_unprotect [OF s4] that show thesis by simp
qed

lemma push_completions_emits:
  assumes "emits s ms d s'"
  obtains s'' x where "push_completions result s' = Some s''" "emits s (ms @ [Msg RB_MSG_COMPLETIONS 0 x]) d s''"
    "x = wire (case result of None \<Rightarrow> [] | Some y \<Rightarrow> y)"
proof (cases result)
  case None
  obtain s1 s'' where s: "interfere s' = Some s1" "push RB_MSG_COMPLETIONS (Some []) 0 s1 = Some s''"
    "emits s (ms @ [Msg RB_MSG_COMPLETIONS 0 []]) d s''" by (rule emits_push [OF assms])
  show thesis by (rule that [of s'' "[]"]) (use s None in \<open>auto simp: push_completions_def wire_def\<close>)
next
  case (Some x)
  obtain s1 s'' where s: "interfere s' = Some s1" "push_str RB_MSG_COMPLETIONS x s1 = Some s''"
    "emits s (ms @ [Msg RB_MSG_COMPLETIONS 0 (wire x)]) d s''" by (rule emits_push_str [OF assms])
  show thesis by (rule that [of s'' "wire x"]) (use s Some in \<open>auto simp: push_completions_def\<close>)
qed

subsection \<open>Evaluations return\<close>

text \<open>
  A runtime that has \<open>R_ToplevelExec\<close>, whose calls ask for no input, and whose
  \<open>R_tryEval\<close> gives a value whenever it reports no error (its documented behaviour).
\<close>

primrec leaves :: "('a \<Rightarrow> bool) \<Rightarrow> ('a, 'h) rcall \<Rightarrow> bool" where
  "leaves P (R_return a h) = P a"
| "leaves P (R_longjmp h) = True"
| "leaves P (R_write txt otype k) = leaves P k"
| "leaves P (R_flush k) = leaves P k"
| "leaves P (R_message msg k) = leaves P k"
| "leaves P (R_read prompt len k) = (\<forall>x. leaves P (k x))"
| "leaves P (R_enter_passthrough k) = leaves P k"
| "leaves P (R_exit_passthrough k) = leaves P k"
| "leaves P (R_emit_image src prev width height mime k) = leaves P k"

lemma run_rcall_leaves: "run_rcall t s = Some (Some a, s') \<Longrightarrow> leaves P t \<Longrightarrow> P a"
  by (induction t arbitrary: s) auto

definition cooperative :: "('s, 'h) r_api \<Rightarrow> bool" where
  "cooperative api \<longleftrightarrow> R_ToplevelExec_fn api \<and> (\<forall>x h. quiet (R_ParseVector api x h)) \<and>
     (\<forall>x h. quiet (R_tryEval api x h) \<and> leaves (\<lambda>(v, err). err = 0 \<longrightarrow> v \<noteq> None) (R_tryEval api x h)) \<and>
     (\<forall>v h. quiet (Rf_PrintValue api v h))"

lemma cooperativeD:
  assumes "cooperative api"
  shows "R_ToplevelExec_fn api" "quiet (R_ParseVector api x h)" "quiet (R_tryEval api x h)"
    "leaves (\<lambda>(v, err). err = 0 \<longrightarrow> v \<noteq> None) (R_tryEval api x h)" "quiet (Rf_PrintValue api x h)"
  using assms by (auto simp: cooperative_def)

lemma toplevel_exec_returns:
  assumes "R_ToplevelExec_fn api" "quiet t" "emits s ms d s'" "write_console s = Cb_write_console_ex"
  obtains r s'' where "toplevel_exec api t s' = Some (r, s'')"
  using run_rcall_returns [OF assms(2) emits_live [OF assms(3)]] emits_console [OF assms(3)] assms(1,4) that
  by (auto simp: toplevel_exec_def)

lemma exec_parse_returns:
  assumes "cooperative api" "emits s ms d s'" "write_console s = Cb_write_console_ex"
  obtains ps v s'' ns where "exec_parse api x s' = Some (ps, v, s'')" "emits s (ms @ ns) d s''"
proof -
  obtain r s'' where "toplevel_exec api (R_ParseVector api x (r_heap s')) s' = Some (r, s'')"
    by (rule toplevel_exec_returns [OF cooperativeD(1,2) [OF assms(1)] assms(2,3)])
  then obtain ps v where e: "exec_parse api x s' = Some (ps, v, s'')"
    by (fastforce simp: exec_parse_def split: option.splits)
  show thesis by (rule exec_parse_emits [OF e assms(2,3)]) (rule that [OF e])
qed

lemma exec_eval_returns:
  assumes "cooperative api" "emits s ms d s'" "write_console s = Cb_write_console_ex"
  obtains err v s'' ns where "exec_eval api x s' = Some (err, v, s'')" "emits s (ms @ ns) d s''"
    "\<not> err \<Longrightarrow> v \<noteq> None"
proof -
  obtain r s'' where r: "toplevel_exec api (R_tryEval api x (r_heap s')) s' = Some (r, s'')"
    by (rule toplevel_exec_returns [OF cooperativeD(1,3) [OF assms(1)] assms(2,3)])
  have nn: "v \<noteq> None" if "r = Some (v, err)" "err = 0" for v err
    using run_rcall_leaves [OF _ cooperativeD(4) [OF assms(1)]] r that cooperativeD(1) [OF assms(1)]
    by (fastforce simp: toplevel_exec_def)
  obtain err v where e: "exec_eval api x s' = Some (err, v, s'')" "\<not> err \<longrightarrow> v \<noteq> None"
  proof (cases r)
    case None
    with r that [of True None] show thesis by (simp add: exec_eval_def)
  next
    case (Some p)
    obtain v err where "p = (v, err)" by (cases p)
    with Some r that [of "err \<noteq> 0" v] nn show thesis by (simp add: exec_eval_def)
  qed
  show thesis by (rule exec_eval_emits [OF e(1) assms(2,3)]) (rule that [OF e(1)], use e(2) in auto)
qed

lemma exec_print_returns:
  assumes "cooperative api" "emits s ms d s'" "write_console s = Cb_write_console_ex"
  obtains ok s'' ns where "exec_print api x s' = Some (ok, s'')" "emits s (ms @ ns) d s''"
proof -
  obtain r s'' where "toplevel_exec api (Rf_PrintValue api x (r_heap s')) s' = Some (r, s'')"
    by (rule toplevel_exec_returns [OF cooperativeD(1,5) [OF assms(1)] assms(2,3)])
  then have e: "exec_print api x s' = Some (r \<noteq> None, s'')" by (simp add: exec_print_def)
  show thesis by (rule exec_print_emits [OF e assms(2,3)]) (rule that [OF e])
qed

lemma hook_returns:
  assumes "cooperative api" "emits s ms d s'" "write_console s = Cb_write_console_ex"
  obtains s'' ns where "run_after_top_level_hook api s' = Some s''" "emits s (ms @ ns) d s''"
proof (cases "Rf_findVar api (raoui_after_top_level_sym api) (R_GlobalEnv api) (r_heap s') = R_UnboundValue api")
  case True
  with assms that [of s' "[]"] show thesis by (simp add: run_after_top_level_hook_def)
next
  case False
  let ?a = "alloc (Rf_lang1 api (raoui_after_top_level_sym api)) s'"
  have "emits s ms (Suc d) (protect (snd ?a))" by (intro emits_local emits_alloc assms(2))
  from exec_eval_returns [OF assms(1) this assms(3)] obtain err v s3 ns
    where e: "exec_eval api (fst ?a) (protect (snd ?a)) = Some (err, v, s3)" "emits s (ms @ ns) (Suc d) s3" by metis
  then have "emits s (ms @ ns) (d + 1) s3" by simp
  from emits_unprotect [OF this] that [of _ ns] e False show thesis
    by (auto simp: run_after_top_level_hook_def split_beta)
qed

lemma eval_loop_returns:
  assumes "cooperative api" "emits s ms d s'" "write_console s = Cb_write_console_ex"
  shows "\<exists>e s''. eval_loop api parsed is s' = Some (e, s'')"
  using assms(2)
proof (induction "is" arbitrary: s' ms)
  case Nil
  then show ?case by auto
next
  case (Cons i "is")
  let ?a = "alloc (Rf_lang2 api (withVisible_sym api) (VECTOR_ELT_fn api parsed i (r_heap s'))) s'"
  have "emits s ms (Suc d) (protect (snd ?a))" by (intro emits_local emits_alloc Cons.prems)
  from exec_eval_returns [OF assms(1) this assms(3)] obtain err result s3 n1
    where ev: "exec_eval api (fst ?a) (protect (snd ?a)) = Some (err, result, s3)" "emits s (ms @ n1) (Suc d) s3"
    by metis
  note step = eval_loop_step [OF ev(1)]
  have s4: "emits s (ms @ n1) (d + 2) (protect s3)" using emits_local(3) [OF ev(2)] by simp
  have rest: "\<exists>s6 s7. run_after_top_level_hook api s5 = Some s6 \<and> unprotect 2 s6 = Some s7 \<and>
      (\<exists>e s''. eval_loop api parsed is s7 = Some (e, s''))" if h: "emits s n2 (d + 2) s5" for n2 s5
  proof -
    obtain s6 ns where s6: "run_after_top_level_hook api s5 = Some s6" "emits s (n2 @ ns) (d + 2) s6"
      by (rule hook_returns [OF assms(1) h assms(3)])
    with emits_unprotect [OF s6(2)] Cons.IH show ?thesis by blast
  qed
  consider "err" | "\<not> err" "Rf_asLogical api (VECTOR_ELT_fn api (or_nil api result) 1 (r_heap (protect s3))) (r_heap (protect s3)) = 0"
    | "\<not> err" "Rf_asLogical api (VECTOR_ELT_fn api (or_nil api result) 1 (r_heap (protect s3))) (r_heap (protect s3)) \<noteq> 0" by blast
  then show ?case
  proof cases
    case 1
    obtain t1 t2 t3 where "unprotect 2 (protect s3) = Some t1" "interfere t1 = Some t2"
      "push RB_MSG_R_ERROR (Some []) 0 t2 = Some t3" by (rule error_exit [OF s4])
    with 1 show ?thesis unfolding step by auto
  next
    case 2
    with rest [OF s4] show ?thesis unfolding step by auto
  next
    case 3
    let ?v = "VECTOR_ELT_fn api (or_nil api result) 0 (r_heap (protect s3))"
    obtain printed s6 n2 where pr: "exec_print api ?v (protect (protect s3)) = Some (printed, s6)"
      "emits s ((ms @ n1) @ n2) (Suc (d + 2)) s6"
      by (rule exec_print_returns [OF assms(1) emits_local(3) [OF s4] assms(3)])
    then have n2': "emits s ((ms @ n1) @ n2) (d + 3) s6" "emits s ((ms @ n1) @ n2) (d + 2 + 1) s6"
      by (simp_all add: numeral_3_eq_3)
    obtain t1 t2 t3 where t: "unprotect 3 s6 = Some t1" "interfere t1 = Some t2"
      "push RB_MSG_R_ERROR (Some []) 0 t2 = Some t3" by (rule error_exit [OF n2'(1)])
    from emits_unprotect [OF n2'(2)] rest [OF emits_unprotect(2) [OF n2'(2)]] t 3 pr(1) show ?thesis
      unfolding step by (cases printed) auto
  qed
qed

lemma eval_code_returns:
  assumes "cooperative api" "live s" "write_console s = Cb_write_console_ex" "R_interrupts_pending s \<noteq> None"
  obtains rc s' where "eval_code api code s = Some (rc, s')"
proof -
  let ?d = "protect_depth s"
  let ?a = "alloc (Rf_mkString api code) (s\<lparr>R_interrupts_pending := Some 0\<rparr>)"
  have "emits s [] (Suc ?d) (protect (snd ?a))" by (intro emits_local emits_alloc emits_refl assms(2))
  from exec_parse_returns [OF assms(1) this assms(3)] obtain ps result s4 n1
    where pa: "exec_parse api (fst ?a) (protect (snd ?a)) = Some (ps, result, s4)" "emits s n1 (Suc ?d) s4"
    by (metis append_Nil)
  let ?s5 = "protect s4"
  have s5: "emits s n1 (?d + 2) ?s5" using emits_local(3) [OF pa(2)] by simp
  show thesis
  proof (cases "ps = PARSE_OK")
    case False
    obtain s6 s7 where e: "interfere ?s5 = Some s6"
      "push_str RB_MSG_R_ERROR (parse_error_text ps) s6 = Some s7"
      "emits s (n1 @ [Msg RB_MSG_R_ERROR 0 (wire (parse_error_text ps))]) (?d + 2) s7"
      by (rule emits_push_str [OF s5])
    obtain s8 s9 where d: "interfere s7 = Some s8" "push RB_MSG_DONE None 0 s8 = Some s9"
      "emits s ((n1 @ [Msg RB_MSG_R_ERROR 0 (wire (parse_error_text ps))]) @ [done_msg]) (?d + 2) s9"
      by (rule emits_push [OF e(3)])
    from pa False e(1,2) d(1,2) emits_unprotect [OF d(3)] assms(4) that show thesis
      by (auto simp: eval_code_def split_beta Let_def)
  next
    case True
    obtain e s6 where lp: "eval_loop api (or_nil api result)
        [0..<nat (Rf_length_fn api (or_nil api result) (r_heap ?s5))] ?s5 = Some (e, s6)"
      using eval_loop_returns [OF assms(1) s5 assms(3)] by blast
    from eval_loop_emits [OF this s5 assms(3)] obtain n2 where n2: "emits s n2 (?d + 2) s6" by auto
    obtain s7 s8 where d: "interfere s6 = Some s7" "push RB_MSG_DONE None 0 s7 = Some s8"
      "emits s (n2 @ [done_msg]) (?d + 2) s8" by (rule emits_push [OF n2])
    from pa True lp d(1,2) emits_unprotect [OF d(3)] assms(4) that show thesis
      by (auto simp: eval_code_def split_beta Let_def)
  qed
qed

lemma eval_string_loop_returns:
  assumes "cooperative api" "emits s ms d s'" "write_console s = Cb_write_console_ex" "r \<noteq> None"
  shows "\<exists>v s''. eval_string_loop api parsed is r s' = Some (v, s'') \<and> v \<noteq> Some None"
  using assms(2,4)
proof (induction "is" arbitrary: r s' ms)
  case Nil
  then show ?case by simp
next
  case (Cons i "is")
  obtain err w s1 ns where e: "exec_eval api (VECTOR_ELT_fn api parsed i (r_heap s')) s' = Some (err, w, s1)"
    "emits s (ms @ ns) d s1" "\<not> err \<Longrightarrow> w \<noteq> None"
    by (rule exec_eval_returns [OF assms(1) Cons.prems(1) assms(3), of "VECTOR_ELT_fn api parsed i (r_heap s')"]) auto
  with Cons.IH [OF e(2), of w] show ?case by (cases err) auto
qed

lemma eval_for_string_returns:
  assumes "cooperative api" "emits s ms d s'" "write_console s = Cb_write_console_ex"
  obtains v s'' where "eval_for_string api code s' = Some (v, s'')"
proof -
  let ?a = "alloc (Rf_mkString api code) s'"
  have "emits s ms (Suc d) (protect (snd ?a))" by (intro emits_local emits_alloc assms(2))
  from exec_parse_returns [OF assms(1) this assms(3)] obtain ps result s3 n1
    where pa: "exec_parse api (fst ?a) (protect (snd ?a)) = Some (ps, result, s3)" "emits s (ms @ n1) (Suc d) s3"
    by metis
  let ?s4 = "protect s3"
  have s4: "emits s (ms @ n1) (d + 2) ?s4" using emits_local(3) [OF pa(2)] by simp
  show thesis
  proof (cases "ps = PARSE_OK")
    case False
    with pa emits_unprotect [OF s4] that show thesis by (auto simp: eval_for_string_def split_beta Let_def)
  next
    case True
    obtain r s5 where lp: "eval_string_loop api (or_nil api result)
        [0..<nat (Rf_length_fn api (or_nil api result) (r_heap ?s4))] (Some (R_NilValue api)) ?s4 = Some (r, s5)"
      "r \<noteq> Some None"
      using eval_string_loop_returns [OF assms(1) s4 assms(3)] by blast
    from eval_string_loop_emits [OF lp(1) s4 assms(3)] obtain n2
      where n2: "emits s ((ms @ n1) @ n2) (d + 2) s5" by auto
    consider "r = None" | w where "r = Some (Some w)" using lp(2) by (cases r) auto
    then show thesis
    proof cases
      case 1
      with pa True lp emits_unprotect [OF n2] that show thesis
        by (auto simp: eval_for_string_def split_beta Let_def)
    next
      case 2
      let ?s8 = "protect (snd (alloc (Rf_asChar api w) (protect s5)))"
      have "emits s ((ms @ n1) @ n2) (Suc (Suc (d + 2))) ?s8" by (intro emits_local emits_alloc n2)
      then have s8: "emits s ((ms @ n1) @ n2) (d + 4) ?s8" by (simp add: eval_nat_numeral)
      from pa True lp 2 emits_unprotect [OF s8] that show thesis
        by (auto simp: eval_for_string_def split_beta Let_def)
    qed
  qed
qed

subsection \<open>The text of a completion request\<close>

text \<open>The buffer of 512 bytes holds the code for every cursor position.\<close>

lemma completion_code_fits:
  assumes "- (2 ^ 31) \<le> pos" "pos < 2 ^ 31"
  shows "snprintf 512 (completion_code pos) = (length (completion_code pos), completion_code pos)"
  by (rule snprintf_fits) (use length_decimal [OF assms] in \<open>simp add: completion_code_def\<close>)

text \<open>A completion request: exactly one completions message, after whatever R printed.\<close>

lemma run_completions_emits:
  assumes "cooperative api" "live s" "write_console s = Cb_write_console_ex" "- (2 ^ 31) \<le> pos" "pos < 2 ^ 31"
  obtains s1 s2 s' ns result where "define_string api (bytes ''.raoui_compl'') line s = Some s1"
    "eval_for_string api (completion_code pos) s1 = Some (result, s2)" "run_completions api line pos s = Some s'"
    "chatter ns" "emits s (ns @ [Msg RB_MSG_COMPLETIONS 0 (wire (case result of None \<Rightarrow> [] | Some y \<Rightarrow> y))]) (protect_depth s) s'"
    "emits s ns (protect_depth s) s2"
proof -
  obtain s1 where s1: "define_string api (bytes ''.raoui_compl'') line s = Some s1" "emits s [] (protect_depth s) s1"
    by (rule define_string_emits [OF emits_refl [OF assms(2)]])
  obtain result s2 where r: "eval_for_string api (completion_code pos) s1 = Some (result, s2)"
    by (rule eval_for_string_returns [OF assms(1) s1(2) assms(3)])
  obtain ns where ns: "chatter ns" "emits s ([] @ ns) (protect_depth s) s2"
    by (rule eval_for_string_emits [OF r s1(2) assms(3)])
  obtain s' x where p: "push_completions result s2 = Some s'"
    "emits s (([] @ ns) @ [Msg RB_MSG_COMPLETIONS 0 x]) (protect_depth s) s'"
    "x = wire (case result of None \<Rightarrow> [] | Some y \<Rightarrow> y)" by (rule push_completions_emits [OF ns(2)])
  have "run_completions api line pos s = Some s'"
    by (simp add: run_completions_def s1(1) completion_code_fits [OF assms(4,5)] r p(1) del: bytes_simps bind_Some_iff)
  with that [OF s1(1) r this ns(1)] p(2,3) ns(2) show thesis by simp
qed

lemma run_column_completions_emits:
  assumes "cooperative api" "live s" "write_console s = Cb_write_console_ex"
  obtains s1 s2 s' ns result where "define_string api (bytes ''.raoui_column_object'') name s = Some s1"
    "eval_for_string api column_code s1 = Some (result, s2)" "run_column_completions api name s = Some s'"
    "chatter ns" "emits s (ns @ [Msg RB_MSG_COMPLETIONS 0 (wire (case result of None \<Rightarrow> [] | Some y \<Rightarrow> y))]) (protect_depth s) s'"
    "emits s ns (protect_depth s) s2"
proof -
  obtain s1 where s1: "define_string api (bytes ''.raoui_column_object'') name s = Some s1" "emits s [] (protect_depth s) s1"
    by (rule define_string_emits [OF emits_refl [OF assms(2)]])
  obtain result s2 where r: "eval_for_string api column_code s1 = Some (result, s2)"
    by (rule eval_for_string_returns [OF assms(1) s1(2) assms(3)])
  obtain ns where ns: "chatter ns" "emits s ([] @ ns) (protect_depth s) s2"
    by (rule eval_for_string_emits [OF r s1(2) assms(3)])
  obtain s' x where p: "push_completions result s2 = Some s'"
    "emits s (([] @ ns) @ [Msg RB_MSG_COMPLETIONS 0 x]) (protect_depth s) s'"
    "x = wire (case result of None \<Rightarrow> [] | Some y \<Rightarrow> y)" by (rule push_completions_emits [OF ns(2)])
  have "run_column_completions api name s = Some s'" by (simp add: run_column_completions_def s1(1) r p(1) del: bytes_simps bind_Some_iff)
  with that [OF s1(1) r this ns(1)] p(2,3) ns(2) show thesis by simp
qed

subsection \<open>Event processing\<close>

lemma run_rcall_emits:
  assumes "emits s ms d s'" "write_console s = Cb_write_console_ex" "run_rcall t s' = Some (r, s'')"
  obtains ns where "chatter ns" "emits s (ms @ ns) d s''"
proof -
  have "callback_run s' s''"
    using run_rcall_run [OF assms(3) emits_live [OF assms(1)]] emits_console [OF assms(1)] assms(2) by simp
  then obtain ns where "chatter ns" "emits s' ns d s''"
    using emits_depth [OF assms(1)] by (auto simp: callback_run_def emits_def chatter_def)
  with that emits_trans [OF assms(1)] show thesis by blast
qed

lemma process_events_emits:
  assumes "process_events api s' = Some s''" "emits s ms d s'" "write_console s = Cb_write_console_ex"
  obtains ns where "chatter ns" "emits s (ms @ ns) d s''"
proof (cases "R_ToplevelExec_fn api")
  case False
  with assms that [of "[]"] show thesis by (simp add: process_events_def)
next
  case True
  then obtain r0 where inner: "process_events_inner api s' = Some (r0, s'')"
    using assms(1) by (auto simp: process_events_def)
  obtain r s1 where s1: "(case R_ProcessEvents_fn api of None \<Rightarrow> Some (Some (), s') | Some f \<Rightarrow> run_rcall (f (r_heap s')) s') = Some (r, s1)"
    using inner by (auto simp: process_events_inner_def)
  obtain n1 where n1: "chatter n1" "emits s (ms @ n1) d s1"
  proof (cases "R_ProcessEvents_fn api")
    case None
    with s1 assms(2) that [of "[]"] show thesis by simp
  next
    case (Some f)
    with s1 have "run_rcall (f (r_heap s')) s' = Some (r, s1)" by simp
    then show thesis by (rule run_rcall_emits [OF assms(2,3)]) (rule that)
  qed
  have "s'' = s1 \<or> (\<exists>t. run_rcall t s1 = Some (r0, s''))"
    using inner s1 by (auto simp: process_events_inner_def split: option.splits if_splits bool.splits)
  then show thesis
  proof
    assume "s'' = s1"
    with n1 that show thesis by blast
  next
    assume "\<exists>t. run_rcall t s1 = Some (r0, s'')"
    then obtain t where t: "run_rcall t s1 = Some (r0, s'')" ..
    obtain n2 where "chatter n2" "emits s ((ms @ n1) @ n2) d s''" by (rule run_rcall_emits [OF n1(2) assms(3) t])
    with n1(1) that [of "n1 @ n2"] show thesis by simp
  qed
qed

end
