(* ===== verification/Sandbox_Linux.thy ===== *)
theory Sandbox_Linux
  imports C_Prelude
begin

section \<open>The Linux sandbox\<close>

text \<open>
  \<open>c_ffi/sandbox_linux.c\<close>: the Landlock file-system allow-list and the seccomp filter that a
  forked child puts on itself before it evaluates code. The kernel and the file system are
  arguments (\<open>kernel\<close>); the child's own state is the record \<open>child\<close>.
\<close>

subsection \<open>Constants\<close>

text \<open>The access rights of \<open>linux/landlock.h\<close>.\<close>

definition LANDLOCK_ACCESS_FS_EXECUTE :: u64 where "LANDLOCK_ACCESS_FS_EXECUTE = 0x1"
definition LANDLOCK_ACCESS_FS_WRITE_FILE :: u64 where "LANDLOCK_ACCESS_FS_WRITE_FILE = 0x2"
definition LANDLOCK_ACCESS_FS_READ_FILE :: u64 where "LANDLOCK_ACCESS_FS_READ_FILE = 0x4"
definition LANDLOCK_ACCESS_FS_READ_DIR :: u64 where "LANDLOCK_ACCESS_FS_READ_DIR = 0x8"
definition LANDLOCK_ACCESS_FS_REMOVE_DIR :: u64 where "LANDLOCK_ACCESS_FS_REMOVE_DIR = 0x10"
definition LANDLOCK_ACCESS_FS_REMOVE_FILE :: u64 where "LANDLOCK_ACCESS_FS_REMOVE_FILE = 0x20"
definition LANDLOCK_ACCESS_FS_MAKE_CHAR :: u64 where "LANDLOCK_ACCESS_FS_MAKE_CHAR = 0x40"
definition LANDLOCK_ACCESS_FS_MAKE_DIR :: u64 where "LANDLOCK_ACCESS_FS_MAKE_DIR = 0x80"
definition LANDLOCK_ACCESS_FS_MAKE_REG :: u64 where "LANDLOCK_ACCESS_FS_MAKE_REG = 0x100"
definition LANDLOCK_ACCESS_FS_MAKE_SOCK :: u64 where "LANDLOCK_ACCESS_FS_MAKE_SOCK = 0x200"
definition LANDLOCK_ACCESS_FS_MAKE_FIFO :: u64 where "LANDLOCK_ACCESS_FS_MAKE_FIFO = 0x400"
definition LANDLOCK_ACCESS_FS_MAKE_BLOCK :: u64 where "LANDLOCK_ACCESS_FS_MAKE_BLOCK = 0x800"
definition LANDLOCK_ACCESS_FS_MAKE_SYM :: u64 where "LANDLOCK_ACCESS_FS_MAKE_SYM = 0x1000"
definition LANDLOCK_ACCESS_FS_TRUNCATE :: u64 where "LANDLOCK_ACCESS_FS_TRUNCATE = 0x4000"

lemmas landlock_rights = LANDLOCK_ACCESS_FS_EXECUTE_def LANDLOCK_ACCESS_FS_WRITE_FILE_def
  LANDLOCK_ACCESS_FS_READ_FILE_def LANDLOCK_ACCESS_FS_READ_DIR_def LANDLOCK_ACCESS_FS_REMOVE_DIR_def
  LANDLOCK_ACCESS_FS_REMOVE_FILE_def LANDLOCK_ACCESS_FS_MAKE_CHAR_def LANDLOCK_ACCESS_FS_MAKE_DIR_def
  LANDLOCK_ACCESS_FS_MAKE_REG_def LANDLOCK_ACCESS_FS_MAKE_SOCK_def LANDLOCK_ACCESS_FS_MAKE_FIFO_def
  LANDLOCK_ACCESS_FS_MAKE_BLOCK_def LANDLOCK_ACCESS_FS_MAKE_SYM_def LANDLOCK_ACCESS_FS_TRUNCATE_def

definition FS_READ_RIGHTS :: u64 where
  "FS_READ_RIGHTS = LANDLOCK_ACCESS_FS_READ_FILE OR LANDLOCK_ACCESS_FS_READ_DIR"

definition FS_WRITE_RIGHTS :: u64 where
  "FS_WRITE_RIGHTS = LANDLOCK_ACCESS_FS_WRITE_FILE OR LANDLOCK_ACCESS_FS_TRUNCATE OR
     LANDLOCK_ACCESS_FS_REMOVE_FILE OR LANDLOCK_ACCESS_FS_REMOVE_DIR OR LANDLOCK_ACCESS_FS_MAKE_REG OR
     LANDLOCK_ACCESS_FS_MAKE_DIR OR LANDLOCK_ACCESS_FS_MAKE_SYM OR LANDLOCK_ACCESS_FS_MAKE_FIFO OR
     LANDLOCK_ACCESS_FS_MAKE_SOCK OR LANDLOCK_ACCESS_FS_MAKE_CHAR OR LANDLOCK_ACCESS_FS_MAKE_BLOCK"

definition FS_FILE_RIGHTS :: u64 where
  "FS_FILE_RIGHTS = LANDLOCK_ACCESS_FS_READ_FILE OR LANDLOCK_ACCESS_FS_WRITE_FILE OR
     LANDLOCK_ACCESS_FS_TRUNCATE OR LANDLOCK_ACCESS_FS_EXECUTE"

definition RUNR_SCRATCH_DIR :: cstring where "RUNR_SCRATCH_DIR = bytes ''/tmp/raoui-sandbox''"

definition SYS_READ_ROOTS :: "cstring list" where
  "SYS_READ_ROOTS = map bytes [''/usr'', ''/lib'', ''/lib64'', ''/bin'', ''/sbin'', ''/etc'', ''/dev'', ''/tmp'']"

definition HOME_SECRETS :: "cstring list" where
  "HOME_SECRETS = map bytes [''.ssh'', ''.aws'', ''.gnupg'', ''.config'', ''.netrc'', ''.Renviron'',
     ''.Rhistory'', ''.bash_history'', ''.zsh_history'', ''.docker'', ''.kube'']"

definition PATH_MAX :: nat where "PATH_MAX = 4096"

subsection \<open>The kernel and the child\<close>

text \<open>
  The location of a file is the list of the names on the way to it from the root, with no
  symbolic link among them; \<open>path_of\<close> is how it is written. The kernel resolves a path to a
  location (\<open>open\<close> with \<open>O_PATH\<close> and \<open>realpath\<close> both follow every link), tells
  directories (\<open>fstat\<close>, which may fail), lists a directory, and answers the system calls with
  their return codes. \<open>'f\<close> is the state of the file system.
\<close>

type_synonym loc = "cstring list"

definition path_of :: "loc \<Rightarrow> cstring" where
  "path_of l = (if l = [] then [47] else concat (map ((#) 47) l))"

record 'f kernel =
  landlock_abi :: int
  create_ruleset :: "u64 \<Rightarrow> int"
  add_rule :: "u64 \<Rightarrow> loc \<Rightarrow> u64 \<Rightarrow> int"
  restrict_self :: int
  set_no_new_privs :: int
  set_seccomp :: int
  resolve :: "'f \<Rightarrow> cstring \<Rightarrow> loc option"
  is_directory :: "'f \<Rightarrow> loc \<Rightarrow> bool option"
  list_directory :: "'f \<Rightarrow> cstring \<Rightarrow> cstring list option"
  make_directory :: "cstring \<Rightarrow> 'f \<Rightarrow> 'f"

text \<open>A rule grants a set of rights on everything at and beneath a location. A ruleset is the
  set of handled rights with its rules.\<close>

type_synonym ruleset = "u64 \<times> (loc \<times> u64) list"

text \<open>The instructions of classic BPF that the filter uses.\<close>

datatype sock_filter = BPF_LD_ABS nat | BPF_JEQ u32 nat nat | BPF_RET u32

record 'f child =
  files :: 'f
  no_new_privs :: bool
  domain :: "ruleset option"
  seccomp :: "sock_filter list option"

subsection \<open>Granting access\<close>

text \<open>\<open>grant_path\<close> on the ruleset under construction: the return code and the ruleset.\<close>

definition grant_path :: "'f kernel \<Rightarrow> 'f \<Rightarrow> ruleset \<Rightarrow> cstring \<Rightarrow> u64 \<Rightarrow> int \<times> ruleset" where
  "grant_path k f rs path access =
     (case resolve k f path of
        None \<Rightarrow> (0, rs)
      | Some l \<Rightarrow>
          let a = (if is_directory k f l = Some False then access AND FS_FILE_RIGHTS else access) in
          if a = 0 then (0, rs)
          else if add_rule k (fst rs) l a \<noteq> 0 then (-1, rs)
          else (0, (fst rs, snd rs @ [(l, a)])))"

definition is_secret_name :: "cstring \<Rightarrow> bool" where
  "is_secret_name name = list_ex (\<lambda>s. name = s) HOME_SECRETS"

fun grant_children :: "'f kernel \<Rightarrow> 'f \<Rightarrow> ruleset \<Rightarrow> cstring \<Rightarrow> u64 \<Rightarrow> cstring list \<Rightarrow> ruleset" where
  "grant_children k f rs home read_access [] = rs"
| "grant_children k f rs home read_access (n # ns) =
     (if n = [46] \<or> n = [46, 46] \<or> is_secret_name n then grant_children k f rs home read_access ns
      else
        let (written, child) = snprintf PATH_MAX (home @ [47] @ n) in
        if PATH_MAX \<le> written then grant_children k f rs home read_access ns
        else grant_children k f (snd (grant_path k f rs child read_access)) home read_access ns)"

definition grant_home_minus_secrets :: "'f kernel \<Rightarrow> 'f \<Rightarrow> ruleset \<Rightarrow> cstring \<Rightarrow> u64 \<Rightarrow> ruleset" where
  "grant_home_minus_secrets k f rs home read_access =
     (case list_directory k f home of
        None \<Rightarrow> rs
      | Some ns \<Rightarrow> grant_children k f rs home read_access ns)"

text \<open>\<open>realpath\<close> into a buffer of \<open>PATH_MAX\<close> bytes: it fails if the result does not fit.\<close>

definition realpath :: "'f kernel \<Rightarrow> 'f \<Rightarrow> cstring \<Rightarrow> cstring option" where
  "realpath k f path = do {
     l \<leftarrow> resolve k f path;
     (if length (path_of l) < PATH_MAX then Some (path_of l) else None)
   }"

definition same_path :: "'f kernel \<Rightarrow> 'f \<Rightarrow> cstring \<Rightarrow> cstring \<Rightarrow> bool" where
  "same_path k f a b =
     (case (realpath k f a, realpath k f b) of
        (Some ra, Some rb) \<Rightarrow> ra = rb
      | _ \<Rightarrow> False)"

definition is_strict_ancestor :: "'f kernel \<Rightarrow> 'f \<Rightarrow> cstring \<Rightarrow> cstring \<Rightarrow> bool" where
  "is_strict_ancestor k f anc desc =
     (case (realpath k f anc, realpath k f desc) of
        (Some ra, Some rd) \<Rightarrow>
          (let la = length ra in
           if la = 0 \<or> \<not> strncmp_eq ra rd la then False
           else ra = [47] \<or> (rd @ [0]) ! la = 47)
      | _ \<Rightarrow> False)"

definition grant_read_tree :: "'f kernel \<Rightarrow> 'f \<Rightarrow> ruleset \<Rightarrow> cstring \<Rightarrow> cstring ptr \<Rightarrow> u64 \<Rightarrow> int \<times> ruleset" where
  "grant_read_tree k f rs path home read_access =
     (case home of
        Some (c # cs) \<Rightarrow>
          if same_path k f path (c # cs) then (0, grant_home_minus_secrets k f rs (c # cs) read_access)
          else if is_strict_ancestor k f path (c # cs) then (0, rs)
          else grant_path k f rs path read_access
      | _ \<Rightarrow> grant_path k f rs path read_access)"

subsection \<open>The allow-list\<close>

definition grant_read_trees :: "'f kernel \<Rightarrow> 'f \<Rightarrow> cstring ptr \<Rightarrow> u64 \<Rightarrow> cstring list \<Rightarrow> ruleset \<Rightarrow> ruleset" where
  "grant_read_trees k f home read_access paths rs =
     foldl (\<lambda>rs path. snd (grant_read_tree k f rs path home read_access)) rs paths"

text \<open>The rights the ruleset governs, for the ABI version of the kernel.\<close>

definition handled_rights :: "'f kernel \<Rightarrow> u64" where
  "handled_rights k =
     (let h = FS_READ_RIGHTS OR FS_WRITE_RIGHTS in
      if landlock_abi k < 3 then h AND NOT LANDLOCK_ACCESS_FS_TRUNCATE else h)"

text \<open>The result is the return code, what \<open>*err\<close> is set to, and the child's state.\<close>

definition apply_landlock :: "'f kernel \<Rightarrow> cstring ptr \<Rightarrow> cstring ptr \<Rightarrow> 'f child \<Rightarrow> int \<times> string ptr \<times> 'f child" where
  "apply_landlock k dyn_read_paths home c =
     (if landlock_abi k < 1 then (-1, Some ''Landlock is unavailable on this kernel'', c)
      else
        let handled = handled_rights k;
            read_access = FS_READ_RIGHTS AND handled;
            write_access = (FS_READ_RIGHTS OR FS_WRITE_RIGHTS) AND handled in
        if create_ruleset k handled < 0 then (-1, Some ''landlock_create_ruleset failed'', c)
        else
          let rs1 = grant_read_trees k (files c) home read_access SYS_READ_ROOTS (handled, []);
              rs2 = (case dyn_read_paths of None \<Rightarrow> rs1
                | Some d \<Rightarrow> grant_read_trees k (files c) home read_access (filter (\<lambda>t. t \<noteq> []) (strtok_nl d)) rs1);
              c1 = c\<lparr>files := make_directory k RUNR_SCRATCH_DIR (files c)\<rparr>;
              rs3 = snd (grant_path k (files c1) rs2 RUNR_SCRATCH_DIR write_access);
              rs4 = snd (grant_path k (files c1) rs3 (bytes ''/dev/null'') (LANDLOCK_ACCESS_FS_WRITE_FILE AND handled)) in
          if set_no_new_privs k \<noteq> 0 then (-1, Some ''prctl(PR_SET_NO_NEW_PRIVS) failed'', c1)
          else
            let c2 = c1\<lparr>no_new_privs := True\<rparr> in
            if restrict_self k \<noteq> 0 then (-1, Some ''landlock_restrict_self failed'', c2)
            else (0, None, c2\<lparr>domain := Some rs4\<rparr>))"

subsection \<open>The system call filter\<close>

text \<open>Constants of the kernel's headers for x86-64.\<close>

definition AUDIT_ARCH_X86_64 :: u32 where "AUDIT_ARCH_X86_64 = 0xC000003E"
definition NR_execve :: u32 where "NR_execve = 59"
definition NR_execveat :: u32 where "NR_execveat = 322"
definition NR_socket :: u32 where "NR_socket = 41"
definition AF_UNIX :: u32 where "AF_UNIX = 1"
definition EACCES :: u32 where "EACCES = 13"
definition SECCOMP_RET_KILL_PROCESS :: u32 where "SECCOMP_RET_KILL_PROCESS = 0x80000000"
definition SECCOMP_RET_ERRNO :: u32 where "SECCOMP_RET_ERRNO = 0x00050000"
definition SECCOMP_RET_ALLOW :: u32 where "SECCOMP_RET_ALLOW = 0x7fff0000"
definition SECCOMP_RET_DATA :: u32 where "SECCOMP_RET_DATA = 0x0000ffff"

definition DENY_EACCES :: u32 where
  "DENY_EACCES = SECCOMP_RET_ERRNO OR (EACCES AND SECCOMP_RET_DATA)"

text \<open>\<open>struct seccomp_data\<close>: what a filter sees of a system call, and its 32-bit words at the
  offsets the filter loads.\<close>

record seccomp_data =
  sd_nr :: u32
  sd_arch :: u32
  sd_instruction_pointer :: u64
  sd_args :: "nat \<Rightarrow> u64"

definition OFFSET_nr :: nat where "OFFSET_nr = 0"
definition OFFSET_arch :: nat where "OFFSET_arch = 4"
definition OFFSET_args0 :: nat where "OFFSET_args0 = 16"

definition seccomp_word :: "seccomp_data \<Rightarrow> nat \<Rightarrow> u32 option" where
  "seccomp_word d off =
     (if off = OFFSET_nr then Some (sd_nr d)
      else if off = OFFSET_arch then Some (sd_arch d)
      else if off = OFFSET_args0 then Some (ucast (sd_args d 0))
      else None)"

definition seccomp_filter :: "sock_filter list" where
  "seccomp_filter = [
     BPF_LD_ABS OFFSET_arch,
     BPF_JEQ AUDIT_ARCH_X86_64 1 0,
     BPF_RET SECCOMP_RET_KILL_PROCESS,
     BPF_LD_ABS OFFSET_nr,
     BPF_JEQ NR_execve 0 1,
     BPF_RET DENY_EACCES,
     BPF_JEQ NR_execveat 0 1,
     BPF_RET DENY_EACCES,
     BPF_JEQ NR_socket 0 3,
     BPF_LD_ABS OFFSET_args0,
     BPF_JEQ AF_UNIX 1 0,
     BPF_RET DENY_EACCES,
     BPF_RET SECCOMP_RET_ALLOW]"

text \<open>The machine that runs such a filter: jumps only go forward, and are relative to the next
  instruction. Falling off the end is no result.\<close>

function bpf_run :: "sock_filter list \<Rightarrow> seccomp_data \<Rightarrow> nat \<Rightarrow> u32 \<Rightarrow> u32 option" where
  "bpf_run prog d pc a =
     (if length prog \<le> pc then None
      else case prog ! pc of
        BPF_LD_ABS off \<Rightarrow> (case seccomp_word d off of None \<Rightarrow> None | Some w \<Rightarrow> bpf_run prog d (pc + 1) w)
      | BPF_JEQ k jt jf \<Rightarrow> bpf_run prog d (pc + 1 + (if a = k then jt else jf)) a
      | BPF_RET r \<Rightarrow> Some r)"
  by pat_completeness auto
termination
  by (relation "measure (\<lambda>(prog, d, pc, a). length prog - pc)") auto

declare bpf_run.simps [simp del]

definition apply_seccomp :: "'f kernel \<Rightarrow> 'f child \<Rightarrow> int \<times> string ptr \<times> 'f child" where
  "apply_seccomp k c =
     (if set_seccomp k \<noteq> 0 then (-1, Some ''prctl(PR_SET_SECCOMP) failed'', c)
      else (0, None, c\<lparr>seccomp := Some seccomp_filter\<rparr>))"

definition raoui_sandbox_apply :: "'f kernel \<Rightarrow> cstring ptr \<Rightarrow> cstring ptr \<Rightarrow> 'f child \<Rightarrow> int \<times> string ptr \<times> 'f child" where
  "raoui_sandbox_apply k dyn_read_paths home c =
     (case apply_landlock k dyn_read_paths home c of
        (rc, err, c1) \<Rightarrow>
          if rc \<noteq> 0 then (-1, err, c1)
          else (case apply_seccomp k c1 of
            (rc2, err2, c2) \<Rightarrow> if rc2 \<noteq> 0 then (-1, err2, c2) else (0, None, c2)))"

text \<open>The stub that other platforms compile.\<close>

definition raoui_sandbox_apply_other :: "cstring ptr \<Rightarrow> cstring ptr \<Rightarrow> 'f child \<Rightarrow> int \<times> string ptr \<times> 'f child" where
  "raoui_sandbox_apply_other dyn_read_paths home c =
     (-1, Some ''Linux sandbox invoked on a non-Linux platform'', c)"

end
