(* ===== verification/Seatbelt.thy ===== *)
theory Seatbelt
  imports C_Prelude
begin

section \<open>The macOS sandbox profile\<close>

text \<open>
  \<open>c_ffi/load_r.c\<close>: the growable buffer \<open>sbuf\<close> and \<open>build_runr_profile\<close>, which writes the
  Seatbelt profile for one sandboxed evaluation from the paths that R reports and the value of
  \<open>HOME\<close>. The environment is an argument. The laws: no write leaves the buffer, the text is
  what the format says, and no path can break out of its quotes.
\<close>

subsection \<open>The buffer\<close>

record sbuf =
  sb_buf :: "byte list"
  sb_len :: nat
  sb_cap :: nat

definition sb_reserve :: "sbuf \<Rightarrow> nat \<Rightarrow> sbuf" where
  "sb_reserve s extra =
     (let need = sz_add (sz_add (sb_len s) extra) 1 in
      if sb_cap s < need
      then (let c = sz_mul need 2 in s\<lparr>sb_cap := c, sb_buf := realloc (Some (sb_buf s)) c\<rparr>)
      else s)"

definition sb_puts :: "sbuf \<Rightarrow> cstring \<Rightarrow> sbuf option" where
  "sb_puts s str = do {
     let l = length str;
     let s1 = sb_reserve s l;
     b1 \<leftarrow> memcpy (sb_buf s1) (sb_len s1) (str @ [0]) 0 l;
     let n = sz_add (sb_len s1) l;
     b2 \<leftarrow> store b1 n 0;
     Some (s1\<lparr>sb_buf := b2, sb_len := n\<rparr>)
   }"

text \<open>\<open>s->buf[s->len++] = c\<close>.\<close>

definition sb_putc :: "byte \<Rightarrow> sbuf \<Rightarrow> sbuf option" where
  "sb_putc c s = do { b \<leftarrow> store (sb_buf s) (sb_len s) c; Some (s\<lparr>sb_buf := b, sb_len := sz_add (sb_len s) 1\<rparr>) }"

fun sb_escape :: "cstring \<Rightarrow> sbuf \<Rightarrow> sbuf option" where
  "sb_escape [] s = Some s"
| "sb_escape (p # ps) s = do {
     s1 \<leftarrow> (if p = 34 \<or> p = 92 then sb_putc 92 s else Some s);
     s2 \<leftarrow> sb_putc p s1;
     sb_escape ps s2
   }"

definition sb_put_subpath :: "sbuf \<Rightarrow> cstring \<Rightarrow> sbuf option" where
  "sb_put_subpath s path = do {
     s1 \<leftarrow> sb_puts s (bytes ''  (subpath '' @ [34]);
     let s2 = sb_reserve s1 (sz_mul 2 (length path));
     s3 \<leftarrow> sb_escape path s2;
     b \<leftarrow> store (sb_buf s3) (sb_len s3) 0;
     sb_puts (s3\<lparr>sb_buf := b\<rparr>) ([34] @ bytes '')'' @ [10])
   }"

subsection \<open>The profile\<close>

definition seatbelt_roots :: "cstring list" where
  "seatbelt_roots = map bytes [''/usr'', ''/System'', ''/Library'', ''/opt/homebrew'', ''/private/var'',
     ''/etc'', ''/private/etc'', ''/dev'']"

definition seatbelt_secrets :: "cstring list" where
  "seatbelt_secrets = map bytes [''/.ssh'', ''/.aws'', ''/.gnupg'', ''/.config'', ''/.netrc'', ''/.Renviron'',
     ''/.Rhistory'', ''/.bash_history'', ''/.zsh_history'', ''/.docker'', ''/.kube'', ''/Library/Keychains'']"

fun sb_put_subpaths :: "cstring list \<Rightarrow> sbuf \<Rightarrow> sbuf option" where
  "sb_put_subpaths [] s = Some s"
| "sb_put_subpaths (p # ps) s = do { s1 \<leftarrow> sb_put_subpath s p; sb_put_subpaths ps s1 }"

definition profile_head :: cstring where
  "profile_head = bytes ''(version 1)'' @ [10] @ bytes ''(allow default)'' @ [10]"

definition profile_writes :: cstring where
  "profile_writes = bytes ''(deny file-write*)'' @ [10] @ bytes ''(allow file-write* (subpath '' @ [34] @
     bytes ''/private/tmp/raoui-sandbox'' @ [34] @ bytes '') (literal '' @ [34] @ bytes ''/dev/null'' @ [34] @ bytes ''))'' @ [10]"

definition profile_effects :: cstring where
  "profile_effects = bytes ''(deny network*)'' @ [10] @ bytes ''(deny process-exec*)'' @ [10]"

definition profile_reads :: cstring where
  "profile_reads = bytes ''(deny file-read*)'' @ [10] @ bytes ''(allow file-read*'' @ [10]"

definition profile_deny :: cstring where
  "profile_deny = bytes ''(deny file-read*'' @ [10]"

definition profile_close :: cstring where
  "profile_close = bytes '')'' @ [10]"

text \<open>\<open>mal\<close> is the block that \<open>malloc(4096)\<close> returned, \<open>home\<close> the value of
  \<open>getenv("HOME")\<close>.\<close>

definition build_runr_profile :: "byte list \<Rightarrow> cstring ptr \<Rightarrow> cstring ptr \<Rightarrow> byte list option" where
  "build_runr_profile mal home dyn_in = do {
     b \<leftarrow> store mal 0 0;
     let s0 = \<lparr>sb_buf = b, sb_len = 0, sb_cap = 4096\<rparr>;
     s1 \<leftarrow> sb_puts s0 profile_head;
     s2 \<leftarrow> sb_puts s1 profile_writes;
     s3 \<leftarrow> sb_puts s2 profile_effects;
     s4 \<leftarrow> sb_puts s3 profile_reads;
     s5 \<leftarrow> sb_put_subpaths seatbelt_roots s4;
     s6 \<leftarrow> (case dyn_in of
              None \<Rightarrow> Some s5
            | Some dyn \<Rightarrow> sb_put_subpaths (filter (\<lambda>t. t \<noteq> []) (strtok_nl dyn)) s5);
     s7 \<leftarrow> sb_puts s6 profile_close;
     s8 \<leftarrow> (case home of
              Some (c # cs) \<Rightarrow> do {
                t1 \<leftarrow> sb_puts s7 profile_deny;
                t2 \<leftarrow> sb_put_subpaths (map (\<lambda>x. snd (snprintf 4096 ((c # cs) @ x))) seatbelt_secrets) t1;
                sb_puts t2 profile_close
              }
            | _ \<Rightarrow> Some s7);
     Some (sb_buf s8)
   }"

subsection \<open>Invariant\<close>

text \<open>The buffer holds the NUL-terminated text \<open>x\<close>.\<close>

definition sb_ok :: "sbuf \<Rightarrow> cstring \<Rightarrow> bool" where
  "sb_ok s x \<longleftrightarrow> length (sb_buf s) = sb_cap s \<and> sb_len s = length x \<and> length x < sb_cap s \<and>
     take (length x) (sb_buf s) = x \<and> sb_buf s ! length x = 0"

text \<open>Like \<open>sb_ok\<close>, but in the middle of a loop: not yet terminated, with room for \<open>n\<close> more bytes
  and the terminator.\<close>

definition sb_room :: "sbuf \<Rightarrow> cstring \<Rightarrow> nat \<Rightarrow> bool" where
  "sb_room s x n \<longleftrightarrow> length (sb_buf s) = sb_cap s \<and> sb_len s = length x \<and> length x + n < sb_cap s \<and>
     take (length x) (sb_buf s) = x"

lemma sb_reserve_room:
  assumes "sb_ok s x" "length x + n < 2 ^ 62"
  shows "sb_room (sb_reserve s n) x n"
proof -
  have need: "sz_add (sz_add (sb_len s) n) 1 = length x + n + 1"
    using assms by (simp add: sb_ok_def c_simps)
  have dbl: "sz_mul (length x + n + 1) 2 = (length x + n + 1) * 2"
    using assms(2) by (intro sz_mul_small) simp
  let ?c = "(length x + n + 1) * 2"
  have "sb_reserve s n = (if sb_cap s < length x + n + 1
      then s\<lparr>sb_cap := ?c, sb_buf := realloc (Some (sb_buf s)) ?c\<rparr> else s)"
    by (simp only: sb_reserve_def need dbl Let_def)
  then show ?thesis
    using assms(1) take_realloc [of "length x" "sb_buf s" ?c] by (simp add: sb_room_def sb_ok_def)
qed

lemma take_Suc_update: "n < length b \<Longrightarrow> take (Suc n) (b[n := c]) = take n b @ [c]"
  by (simp add: take_Suc_conv_app_nth)

lemma sb_putc_room:
  assumes "sb_room s x (Suc n)" "length x + Suc n < 2 ^ 62"
  obtains s' where "sb_putc c s = Some s'" "sb_room s' (x @ [c]) n"
proof -
  have len: "length x < length (sb_buf s)" using assms(1) by (simp add: sb_room_def)
  let ?s = "s\<lparr>sb_buf := (sb_buf s)[length x := c], sb_len := length x + 1\<rparr>"
  have "sb_putc c s = Some ?s"
    using assms len by (simp add: sb_putc_def sb_room_def c_simps)
  moreover have "sb_room ?s (x @ [c]) n"
    using assms(1) take_Suc_update [OF len, of c] by (simp add: sb_room_def)
  ultimately show thesis by (rule that)
qed

lemma sb_puts_ok:
  assumes "sb_ok s x" "length x + length y < 2 ^ 62"
  obtains s' where "sb_puts s y = Some s'" "sb_ok s' (x @ y)"
proof -
  let ?s1 = "sb_reserve s (length y)"
  have r: "sb_room ?s1 x (length y)" by (rule sb_reserve_room [OF assms])
  let ?b1 = "take (length x) (sb_buf ?s1) @ y @ drop (length x + length y) (sb_buf ?s1)"
  have m: "memcpy (sb_buf ?s1) (sb_len ?s1) (y @ [0]) 0 (length y) = Some ?b1"
    using r by (simp add: memcpy_def sb_room_def)
  have n: "sz_add (sb_len ?s1) (length y) = length x + length y"
    using r assms(2) by (simp add: sb_room_def c_simps)
  have len: "length ?b1 = sb_cap ?s1" "length x + length y < length ?b1" using r by (auto simp: sb_room_def)
  let ?s' = "?s1\<lparr>sb_buf := ?b1[length x + length y := 0], sb_len := length x + length y\<rparr>"
  have "sb_puts s y = Some ?s'"
    using m n len by (simp add: sb_puts_def Let_def store_def)
  moreover have "sb_ok ?s' (x @ y)" using r len by (simp add: sb_ok_def sb_room_def)
  ultimately show thesis by (rule that)
qed

subsection \<open>Escaping\<close>

fun escape :: "cstring \<Rightarrow> cstring" where
  "escape [] = []"
| "escape (p # ps) = (if p = 34 \<or> p = 92 then [92, p] else [p]) @ escape ps"

lemma length_escape: "length (escape p) \<le> 2 * length p"
  by (induction p) auto

lemma escape_no_nul: "0 \<notin> set p \<Longrightarrow> 0 \<notin> set (escape p)"
  by (induction p) auto

lemma sb_escape_room:
  assumes "sb_room s x (2 * length p + n)" "length x + (2 * length p + n) < 2 ^ 62"
  shows "\<exists>s'. sb_escape p s = Some s' \<and> sb_room s' (x @ escape p) n"
  using assms
proof (induction p arbitrary: s x)
  case Nil
  then show ?case by simp
next
  case (Cons c p)
  have room: "sb_room s x (Suc (Suc (2 * length p + n)))" using Cons.prems(1) by simp
  show ?case
  proof (cases "c = 34 \<or> c = 92")
    case True
    obtain s1 where s1: "sb_putc 92 s = Some s1" "sb_room s1 (x @ [92]) (Suc (2 * length p + n))"
      by (rule sb_putc_room [OF room]) (use Cons.prems(2) in auto)
    obtain s2 where s2: "sb_putc c s1 = Some s2" "sb_room s2 ((x @ [92]) @ [c]) (2 * length p + n)"
      by (rule sb_putc_room [OF s1(2)]) (use Cons.prems(2) in auto)
    from Cons.IH [OF s2(2)] Cons.prems(2) True s1(1) s2(1) show ?thesis by auto
  next
    case False
    obtain s1 where s1: "sb_putc c s = Some s1" "sb_room s1 (x @ [c]) (Suc (2 * length p + n))"
      by (rule sb_putc_room [OF room]) (use Cons.prems(2) in auto)
    have "sb_room s1 (x @ [c]) (2 * length p + n)" using s1(2) by (simp add: sb_room_def)
    from Cons.IH [OF this] Cons.prems(2) False s1(1) show ?thesis by auto
  qed
qed

definition subpath_rule :: "cstring \<Rightarrow> cstring" where
  "subpath_rule p = bytes ''  (subpath '' @ [34] @ escape p @ [34] @ bytes '')'' @ [10]"

lemma length_subpath_rule: "length (subpath_rule p) \<le> 2 * length p + 15"
  using length_escape [of p] by (simp add: subpath_rule_def)

lemma sb_put_subpath_ok:
  assumes "sb_ok s x" "length x + 2 * length p + 20 < 2 ^ 62"
  obtains s' where "sb_put_subpath s p = Some s'" "sb_ok s' (x @ subpath_rule p)"
proof -
  let ?q = "bytes ''  (subpath '' @ [34]"
  obtain s1 where s1: "sb_puts s ?q = Some s1" "sb_ok s1 (x @ ?q)"
    by (rule sb_puts_ok [OF assms(1), of ?q]) (use assms(2) in auto)
  have two: "sz_mul 2 (length p) = 2 * length p" using assms(2) by (intro sz_mul_small) simp
  have "sb_room (sb_reserve s1 (2 * length p)) (x @ ?q) (2 * length p)"
    by (rule sb_reserve_room [OF s1(2)]) (use assms(2) in simp)
  then obtain s3 where s3: "sb_escape p (sb_reserve s1 (2 * length p)) = Some s3" "sb_room s3 ((x @ ?q) @ escape p) 0"
    using sb_escape_room [of _ "x @ ?q" p 0] assms(2) by auto
  let ?y = "(x @ ?q) @ escape p"
  let ?s4 = "s3\<lparr>sb_buf := (sb_buf s3)[length ?y := 0]\<rparr>"
  have st: "store (sb_buf s3) (sb_len s3) 0 = Some ((sb_buf s3)[length ?y := 0])"
    using s3(2) by (simp add: store_def sb_room_def)
  have s4: "sb_ok ?s4 ?y" using s3(2) by (simp add: sb_ok_def sb_room_def)
  obtain s' where s': "sb_puts ?s4 ([34] @ bytes '')'' @ [10]) = Some s'" "sb_ok s' (?y @ ([34] @ bytes '')'' @ [10]))"
    by (rule sb_puts_ok [OF s4, of "[34] @ bytes '')'' @ [10]"]) (use assms(2) length_escape [of p] in auto)
  have "sb_put_subpath s p = Some s'"
    using s1(1) s3(1) st s'(1) two by (simp add: sb_put_subpath_def Let_def del: bytes_simps)
  with that s'(2) show thesis by (simp add: subpath_rule_def del: bytes_simps)
qed

text \<open>The rules for a list of paths.\<close>

definition subpath_rules :: "cstring list \<Rightarrow> cstring" where
  "subpath_rules ps = concat (map subpath_rule ps)"

lemma sb_put_subpaths_ok:
  assumes "sb_ok s x" "length x + 20 * length ps + 2 * length (concat ps) + 20 < 2 ^ 62"
  shows "\<exists>s'. sb_put_subpaths ps s = Some s' \<and> sb_ok s' (x @ subpath_rules ps)"
  using assms
proof (induction ps arbitrary: s x)
  case Nil
  then show ?case by (simp add: subpath_rules_def)
next
  case (Cons p ps)
  obtain s1 where s1: "sb_put_subpath s p = Some s1" "sb_ok s1 (x @ subpath_rule p)"
    by (rule sb_put_subpath_ok [OF Cons.prems(1), of p]) (use Cons.prems(2) in auto)
  from Cons.IH [OF s1(2)] Cons.prems(2) length_subpath_rule [of p] s1(1) show ?case
    by (auto simp: subpath_rules_def)
qed

lemma tokens_from_length: "length (concat (tokens_from d cur s)) \<le> length cur + length s"
  "length (tokens_from d cur s) \<le> length cur + length s"
proof -
  have "length (concat (tokens_from d cur s)) \<le> length cur + length s \<and>
    length (tokens_from d cur s) \<le> (if cur = [] then 0 else 1) + length s"
  proof (induction d cur s rule: tokens_from.induct)
    case (1 d cur)
    then show ?case by simp
  next
    case (2 d cur b bs)
    then show ?case by (cases "b = d"; cases "cur = []") auto
  qed
  then show "length (concat (tokens_from d cur s)) \<le> length cur + length s"
    "length (tokens_from d cur s) \<le> length cur + length s" by (cases cur; auto)+
qed

lemma tokens_from_bytes: "t \<in> set (tokens_from d cur s) \<Longrightarrow> set t \<subseteq> set cur \<union> set s"
  by (induction d cur s rule: tokens_from.induct) (auto split: if_splits)

lemma strtok_nl_nonempty: "filter (\<lambda>t. t \<noteq> []) (strtok_nl s) = strtok_nl s"
  using strtok_nl_sound by (simp add: filter_id_conv)

subsection \<open>The whole profile\<close>

text \<open>What the profile says, as text.\<close>

definition profile_text :: "cstring ptr \<Rightarrow> cstring ptr \<Rightarrow> cstring" where
  "profile_text home dyn =
     profile_head @ profile_writes @ profile_effects @ profile_reads @ subpath_rules seatbelt_roots @
     (case dyn of None \<Rightarrow> [] | Some d \<Rightarrow> subpath_rules (strtok_nl d)) @ profile_close @
     (case home of
        Some (c # cs) \<Rightarrow> profile_deny @ subpath_rules (map (\<lambda>x. take 4095 ((c # cs) @ x)) seatbelt_secrets) @ profile_close
      | _ \<Rightarrow> [])"

lemma length_subpath_rules: "length (subpath_rules ps) \<le> 15 * length ps + 2 * length (concat ps)"
  by (induction ps) (auto simp: subpath_rules_def intro: order_trans [OF add_mono [OF length_subpath_rule]])

lemma subpath_rules_no_nul: "\<forall>p \<in> set ps. 0 \<notin> set p \<Longrightarrow> 0 \<notin> set (subpath_rules ps)"
  using escape_no_nul by (auto simp: subpath_rules_def subpath_rule_def)

lemma profile_lengths:
  "length (profile_head @ profile_writes @ profile_effects @ profile_reads) < 400"
  "length (subpath_rules seatbelt_roots) < 400" "length profile_close = 2" "length profile_deny < 20"
  using length_subpath_rules [of seatbelt_roots]
  by (simp_all add: profile_head_def profile_writes_def profile_effects_def profile_reads_def profile_close_def
      profile_deny_def seatbelt_roots_def)

lemma profile_no_nul:
  "0 \<notin> set (profile_head @ profile_writes @ profile_effects @ profile_reads)" "0 \<notin> set profile_close"
  "0 \<notin> set profile_deny" "0 \<notin> set (subpath_rules seatbelt_roots)"
  by (simp_all add: profile_head_def profile_writes_def profile_effects_def profile_reads_def profile_close_def
      profile_deny_def seatbelt_roots_def subpath_rules_no_nul)

definition secret_paths :: "cstring \<Rightarrow> cstring list" where
  "secret_paths h = map (\<lambda>x. take 4095 (h @ x)) seatbelt_secrets"

lemma secret_paths_bounds:
  "length (secret_paths h) = 12" "length (concat (secret_paths h)) \<le> 12 * 4095"
  "0 \<notin> set h \<Longrightarrow> p \<in> set (secret_paths h) \<Longrightarrow> 0 \<notin> set p"
proof -
  show "length (secret_paths h) = 12" by (simp add: secret_paths_def seatbelt_secrets_def)
  have "length (concat (map (take 4095) xs)) \<le> length xs * 4095" for xs :: "cstring list"
    by (induction xs) auto
  from this [of "map ((@) h) seatbelt_secrets"] show "length (concat (secret_paths h)) \<le> 12 * 4095"
    by (simp add: secret_paths_def seatbelt_secrets_def comp_def del: bytes_simps)
  show "0 \<notin> set p" if "0 \<notin> set h" "p \<in> set (secret_paths h)"
  proof -
    have "\<forall>x \<in> set seatbelt_secrets. 0 \<notin> set x" by (simp add: seatbelt_secrets_def)
    with that show ?thesis by (fastforce simp: secret_paths_def dest: in_set_takeD)
  qed
qed

text \<open>A deny block for the secrets, at the end of the profile.\<close>

lemma secrets_block_ok:
  assumes "sb_ok s x" "length x < 2 ^ 61"
  shows "\<exists>t1 t2 t3. sb_puts s profile_deny = Some t1 \<and> sb_put_subpaths (secret_paths h) t1 = Some t2 \<and>
    sb_puts t2 profile_close = Some t3 \<and> sb_ok t3 (x @ profile_deny @ subpath_rules (secret_paths h) @ profile_close)"
proof -
  obtain t1 where t1: "sb_puts s profile_deny = Some t1" "sb_ok t1 (x @ profile_deny)"
    by (rule sb_puts_ok [OF assms(1), of profile_deny]) (use assms(2) profile_lengths in auto)
  obtain t2 where t2: "sb_put_subpaths (secret_paths h) t1 = Some t2" "sb_ok t2 ((x @ profile_deny) @ subpath_rules (secret_paths h))"
    using sb_put_subpaths_ok [OF t1(2), of "secret_paths h"] secret_paths_bounds(1,2) [of h] assms(2) profile_lengths(4) by auto
  obtain t3 where t3: "sb_puts t2 profile_close = Some t3"
    "sb_ok t3 (((x @ profile_deny) @ subpath_rules (secret_paths h)) @ profile_close)"
    by (rule sb_puts_ok [OF t2(2), of profile_close])
      (use assms(2) profile_lengths(3,4) length_subpath_rules [of "secret_paths h"] secret_paths_bounds(1,2) [of h] in auto)
  from t1(1) t2(1) t3 show ?thesis by auto
qed

text \<open>The part before it.\<close>

lemma reads_block_ok:
  assumes "length mal = 4096" "\<And>d. dyn = Some d \<Longrightarrow> length d < 2 ^ 55"
    "toks = (case dyn of None \<Rightarrow> [] | Some d \<Rightarrow> strtok_nl d)"
  obtains b s1 s2 s3 s4 s5 s6 s7 where "store mal 0 0 = Some b"
    "sb_puts \<lparr>sb_buf = b, sb_len = 0, sb_cap = 4096\<rparr> profile_head = Some s1" "sb_puts s1 profile_writes = Some s2"
    "sb_puts s2 profile_effects = Some s3" "sb_puts s3 profile_reads = Some s4"
    "sb_put_subpaths seatbelt_roots s4 = Some s5" "sb_put_subpaths toks s5 = Some s6"
    "sb_puts s6 profile_close = Some s7"
    "sb_ok s7 ((profile_head @ profile_writes @ profile_effects @ profile_reads) @ subpath_rules seatbelt_roots @
      subpath_rules toks @ profile_close)"
    "length (subpath_rules toks) < 2 ^ 60"
proof -
  have toks: "length toks < 2 ^ 55" "length (concat toks) < 2 ^ 55"
    using assms(2) tokens_from_length [of 10 "[]"]
    by (auto simp: assms(3) strtok_nl_def split: option.splits intro: le_less_trans)
  have "sb_ok \<lparr>sb_buf = mal[0 := 0], sb_len = 0, sb_cap = 4096\<rparr> []"
    using assms(1) by (cases mal) (auto simp: sb_ok_def)
  then obtain s1 where s1: "sb_puts \<lparr>sb_buf = mal[0 := 0], sb_len = 0, sb_cap = 4096\<rparr> profile_head = Some s1" "sb_ok s1 ([] @ profile_head)"
    by (rule sb_puts_ok) (use profile_lengths in auto)
  obtain s2 where s2: "sb_puts s1 profile_writes = Some s2" "sb_ok s2 (([] @ profile_head) @ profile_writes)"
    by (rule sb_puts_ok [OF s1(2)]) (use profile_lengths in auto)
  obtain s3 where s3: "sb_puts s2 profile_effects = Some s3" "sb_ok s3 ((([] @ profile_head) @ profile_writes) @ profile_effects)"
    by (rule sb_puts_ok [OF s2(2)]) (use profile_lengths in auto)
  obtain s4 where s4: "sb_puts s3 profile_reads = Some s4"
    "sb_ok s4 (((([] @ profile_head) @ profile_writes) @ profile_effects) @ profile_reads)"
    by (rule sb_puts_ok [OF s3(2)]) (use profile_lengths in auto)
  let ?x = "profile_head @ profile_writes @ profile_effects @ profile_reads"
  have s4': "sb_ok s4 ?x" using s4(2) by simp
  obtain s5 where s5: "sb_put_subpaths seatbelt_roots s4 = Some s5" "sb_ok s5 (?x @ subpath_rules seatbelt_roots)"
    using sb_put_subpaths_ok [OF s4', of seatbelt_roots] profile_lengths(1) by (auto simp: seatbelt_roots_def)
  obtain s6 where s6: "sb_put_subpaths toks s5 = Some s6" "sb_ok s6 ((?x @ subpath_rules seatbelt_roots) @ subpath_rules toks)"
    using sb_put_subpaths_ok [OF s5(2), of toks] profile_lengths(1,2) toks by auto
  have lt: "length (subpath_rules toks) < 2 ^ 60" using length_subpath_rules [of toks] toks by simp
  obtain s7 where s7: "sb_puts s6 profile_close = Some s7"
    "sb_ok s7 (((?x @ subpath_rules seatbelt_roots) @ subpath_rules toks) @ profile_close)"
    by (rule sb_puts_ok [OF s6(2), of profile_close]) (use profile_lengths lt in auto)
  have st: "store mal 0 0 = Some (mal[0 := 0])" using assms(1) by (simp add: store_def)
  have ok: "sb_ok s7 (?x @ subpath_rules seatbelt_roots @ subpath_rules toks @ profile_close)"
    using s7(2) by simp
  show thesis by (rule that [OF st s1(1) s2(1) s3(1) s4(1) s5(1) s6(1) s7(1) ok lt])
qed

lemma sb_ok_c_str: "sb_ok s x \<Longrightarrow> 0 \<notin> set x \<Longrightarrow> c_str (sb_buf s) = Some x"
proof -
  assume a: "sb_ok s x" "0 \<notin> set x"
  then have "length x < length (sb_buf s)" "take (length x) (sb_buf s) = x" "sb_buf s ! length x = 0"
    by (simp_all add: sb_ok_def)
  then have "sb_buf s = x @ 0 # drop (Suc (length x)) (sb_buf s)" using id_take_nth_drop by fastforce
  with c_str_terminated [OF a(2), of "drop (Suc (length x)) (sb_buf s)"] show ?thesis by simp
qed

subsection \<open>Properties\<close>

text \<open>The profile up to its secrets, and the code from there on.\<close>

definition profile_allow :: "cstring ptr \<Rightarrow> cstring" where
  "profile_allow dyn = (profile_head @ profile_writes @ profile_effects @ profile_reads) @ subpath_rules seatbelt_roots @
     subpath_rules (case dyn of None \<Rightarrow> [] | Some d \<Rightarrow> strtok_nl d) @ profile_close"

lemma build_runr_profile_allow:
  assumes "length mal = 4096" "0 \<notin> set (block_of dyn)" "length (block_of dyn) < 2 ^ 55"
  obtains s7 where "sb_ok s7 (profile_allow dyn)" "0 \<notin> set (profile_allow dyn)"
    "length (subpath_rules (case dyn of None \<Rightarrow> [] | Some d \<Rightarrow> strtok_nl d)) < 2 ^ 60"
    "build_runr_profile mal home dyn = do {
      s8 \<leftarrow> (case home of
        Some (c # cs) \<Rightarrow> do {
          t1 \<leftarrow> sb_puts s7 profile_deny;
          t2 \<leftarrow> sb_put_subpaths (map (\<lambda>x. snd (snprintf 4096 ((c # cs) @ x))) seatbelt_secrets) t1;
          sb_puts t2 profile_close }
      | _ \<Rightarrow> Some s7);
      Some (sb_buf s8) }"
proof -
  let ?toks = "case dyn of None \<Rightarrow> [] | Some d \<Rightarrow> strtok_nl d"
  have d: "\<And>d. dyn = Some d \<Longrightarrow> length d < 2 ^ 55" using assms(3) by auto
  obtain b s1 s2 s3 s4 s5 s6 s7 where st: "store mal 0 0 = Some b"
    "sb_puts \<lparr>sb_buf = b, sb_len = 0, sb_cap = 4096\<rparr> profile_head = Some s1" "sb_puts s1 profile_writes = Some s2"
    "sb_puts s2 profile_effects = Some s3" "sb_puts s3 profile_reads = Some s4"
    "sb_put_subpaths seatbelt_roots s4 = Some s5" "sb_put_subpaths ?toks s5 = Some s6"
    "sb_puts s6 profile_close = Some s7" and s7: "sb_ok s7 ((profile_head @ profile_writes @ profile_effects @ profile_reads) @
      subpath_rules seatbelt_roots @ subpath_rules ?toks @ profile_close)" and lt: "length (subpath_rules ?toks) < 2 ^ 60"
    by (rule reads_block_ok [where dyn = dyn, OF assms(1) d refl])
  have dyn: "(case dyn of None \<Rightarrow> Some s5 | Some d \<Rightarrow> sb_put_subpaths (filter (\<lambda>t. t \<noteq> []) (strtok_nl d)) s5) = Some s6"
    using st(7) by (cases dyn) (simp_all add: strtok_nl_nonempty)
  have "\<forall>t \<in> set ?toks. 0 \<notin> set t"
    using assms(2) tokens_from_bytes [of _ 10 "[]"] by (fastforce simp: strtok_nl_def split: option.splits)
  then have nn: "0 \<notin> set (profile_allow dyn)"
    using profile_no_nul subpath_rules_no_nul [of ?toks] by (auto simp: profile_allow_def)
  show thesis
    by (rule that [OF s7 [folded profile_allow_def] nn lt])
      (unfold build_runr_profile_def Let_def st(1-6) Option.bind.simps dyn st(8), rule refl)
qed

text \<open>C32: \<open>build_runr_profile\<close> stays inside its buffer at every step and returns the
  NUL-terminated text of the profile: the fixed rules, one quoted and escaped \<open>subpath\<close> rule for
  each system root and each path that R reported, and last the deny rules for the credential
  stores when \<open>HOME\<close> is set.\<close>

theorem seatbelt_profile_text:
  assumes "length mal = 4096" "0 \<notin> set (block_of dyn)" "length (block_of dyn) < 2 ^ 55" "0 \<notin> set (block_of home)"
  shows "\<exists>b. build_runr_profile mal home dyn = Some b \<and> c_str b = Some (profile_text home dyn)"
proof (rule build_runr_profile_allow [OF assms(1-3), of home])
  let ?x = "profile_allow dyn"
  fix s7
  assume s7: "sb_ok s7 ?x" and nn: "0 \<notin> set ?x" and lt: "length (subpath_rules (case dyn of None \<Rightarrow> [] | Some d \<Rightarrow> strtok_nl d)) < 2 ^ 60"
    and code: "build_runr_profile mal home dyn = do {
      s8 \<leftarrow> (case home of
        Some (c # cs) \<Rightarrow> do {
          t1 \<leftarrow> sb_puts s7 profile_deny;
          t2 \<leftarrow> sb_put_subpaths (map (\<lambda>x. snd (snprintf 4096 ((c # cs) @ x))) seatbelt_secrets) t1;
          sb_puts t2 profile_close }
      | _ \<Rightarrow> Some s7);
      Some (sb_buf s8) }"
  show ?thesis
  proof (cases "home = None \<or> home = Some []")
    case True
    then have "build_runr_profile mal home dyn = Some (sb_buf s7)" using code by auto
    moreover have "profile_text home dyn = ?x"
      using True by (cases dyn) (auto simp: profile_text_def profile_allow_def subpath_rules_def)
    ultimately show ?thesis using sb_ok_c_str [OF s7 nn] by simp
  next
    case False
    then obtain c cs where home: "home = Some (c # cs)" by (metis list.exhaust option.exhaust)
    let ?y = "?x @ profile_deny @ subpath_rules (secret_paths (c # cs)) @ profile_close"
    obtain t1 t2 t3 where t: "sb_puts s7 profile_deny = Some t1" "sb_put_subpaths (secret_paths (c # cs)) t1 = Some t2"
      "sb_puts t2 profile_close = Some t3" "sb_ok t3 ?y"
      using secrets_block_ok [OF s7 [unfolded profile_allow_def], of "c # cs"] profile_lengths lt by (auto simp: profile_allow_def)
    have "build_runr_profile mal home dyn = Some (sb_buf t3)"
      using code t(1-3) by (simp add: home secret_paths_def snprintf_def)
    moreover have "profile_text home dyn = ?y"
      by (cases dyn) (auto simp: profile_text_def profile_allow_def subpath_rules_def secret_paths_def home)
    moreover have "0 \<notin> set ?y"
      using nn profile_no_nul(2,3) subpath_rules_no_nul [of "secret_paths (c # cs)"] secret_paths_bounds(3) [of "c # cs"]
        assms(4) home by auto
    ultimately show ?thesis using sb_ok_c_str [OF t(4)] by simp
  qed
qed

theorem seatbelt_profile_text_witness:
  "\<exists>b. build_runr_profile (replicate 4096 1) (Some (bytes ''/Users/u'')) (Some (bytes ''/opt/R'' @ [10] @ [47, 34, 92])) = Some b \<and>
     c_str b = Some (profile_text (Some (bytes ''/Users/u'')) (Some (bytes ''/opt/R'' @ [10] @ [47, 34, 92])))"
  using seatbelt_profile_text [of "replicate 4096 1" "Some (bytes ''/opt/R'' @ [10] @ [47, 34, 92])" "Some (bytes ''/Users/u'')"]
  by simp

text \<open>A reader of SBPL string literals: up to the first quote that no backslash protects.\<close>

fun read_literal :: "cstring \<Rightarrow> (cstring \<times> cstring) option" where
  "read_literal [] = None"
| "read_literal (b # bs) =
     (if b = 34 then Some ([], bs)
      else if b = 92 then (case bs of [] \<Rightarrow> None | c # cs \<Rightarrow> map_option (apfst ((#) c)) (read_literal cs))
      else map_option (apfst ((#) b)) (read_literal bs))"

text \<open>C33: No path can break out of its rule: whatever bytes a path holds (quotes and backslashes
  included), \<open>sb_put_subpath\<close> appends a rule, inside its buffer, whose string literal reads back as
  exactly that path and leaves exactly the end of the rule, whatever is appended later.\<close>

theorem seatbelt_escape_roundtrip:
  assumes "sb_ok s x" "length x + 2 * length p + 20 < 2 ^ 62"
  shows "\<exists>s' lit. sb_put_subpath s p = Some s' \<and> sb_ok s' (x @ bytes ''  (subpath '' @ [34] @ lit) \<and>
     (\<forall>rest. read_literal (lit @ rest) = Some (p, bytes '')'' @ [10] @ rest))"
proof -
  obtain s' where s': "sb_put_subpath s p = Some s'" "sb_ok s' (x @ subpath_rule p)" by (rule sb_put_subpath_ok [OF assms])
  have "read_literal (escape p @ 34 # r) = Some (p, r)" for r
    by (induction p) auto
  then show ?thesis using s'
    by (intro exI [of _ s'] exI [of _ "escape p @ 34 # bytes '')'' @ [10]"]) (simp add: subpath_rule_def)
qed

theorem seatbelt_escape_roundtrip_witness:
  "\<exists>s' lit. sb_put_subpath \<lparr>sb_buf = [0, 7], sb_len = 0, sb_cap = 2\<rparr> [47, 34, 92] = Some s' \<and>
     read_literal (lit @ [1]) = Some ([47, 34, 92], bytes '')'' @ [10] @ [1])"
  using seatbelt_escape_roundtrip [of "\<lparr>sb_buf = [0, 7], sb_len = 0, sb_cap = 2\<rparr>" "[]" "[47, 34, 92]"]
  by (auto simp: sb_ok_def)

end
