(* ===== verification/Run_R.thy ===== *)
theory Run_R
  imports Eval_Protocol Sandbox_Linux Seatbelt "HOL-Library.Signed_Division"
begin

section \<open>Sandboxed evaluation\<close>

text \<open>
  \<open>c_ffi/load_r.c\<close>: \<open>gather_runr_read_paths\<close>, \<open>eval_in_sandbox\<close> and \<open>run_r_on_worker\<close>. The
  worker forks; the child confines itself, evaluates and writes to a pipe; the parent drains the
  pipe under a watchdog and reaps the child. What the operating system answers (\<open>pipe\<close>,
  \<open>fork\<close>, the clock, \<open>poll\<close>, \<open>read\<close>, \<open>waitpid\<close>) is an argument.
\<close>

definition RUNR_WALL_TIMEOUT_MS :: int where "RUNR_WALL_TIMEOUT_MS = 30000"
definition RUNR_MAX_VSIZE_MB :: string where "RUNR_MAX_VSIZE_MB = ''4096''"

subsection \<open>The paths R uses\<close>

definition read_paths_code :: cstring where
  "read_paths_code = bytes (''paste(unique(c(R.home(), .libPaths(), tempdir(), getwd())), '' @
     ''collapse='' @ [CHR 34, CHR 92] @ ''n'' @ [CHR 34] @ '')'')"

definition gather_runr_read_paths :: "('s, 'h) r_api \<Rightarrow> 'h bridge \<Rightarrow> (cstring ptr \<times> 'h bridge) option" where
  "gather_runr_read_paths api s = eval_for_string api read_paths_code s"

subsection \<open>The child\<close>

text \<open>The loop of \<open>eval_in_sandbox\<close>, over the indices still to do.\<close>

fun sandbox_loop :: "('s, 'h) r_api \<Rightarrow> 's \<Rightarrow> nat list \<Rightarrow> 'h bridge \<Rightarrow> 'h bridge option" where
  "sandbox_loop api parsed [] s = Some s"
| "sandbox_loop api parsed (i # is) s = do {
     let (wv_call, s1) = alloc (Rf_lang2 api (withVisible_sym api) (VECTOR_ELT_fn api parsed i (r_heap s))) s;
     let s2 = protect s1;
     (err, result, s3) \<leftarrow> exec_eval api wv_call s2;
     let wv_result = or_nil api result;
     let s4 = protect s3;
     (if err then unprotect 2 s4
      else do {
        let v = VECTOR_ELT_fn api wv_result 0 (r_heap s4);
        let visible = VECTOR_ELT_fn api wv_result 1 (r_heap s4);
        (if Rf_asLogical api visible (r_heap s4) \<noteq> 0 then do {
           let s5 = protect s4;
           (printed, s6) \<leftarrow> exec_print api v s5;
           (if \<not> printed then unprotect 3 s6
            else do { s7 \<leftarrow> unprotect 1 s6; s8 \<leftarrow> unprotect 2 s7; sandbox_loop api parsed is s8 })
         }
         else do { s5 \<leftarrow> unprotect 2 s4; sandbox_loop api parsed is s5 })
      })
   }"

definition write_pipe :: "byte list \<Rightarrow> 'h bridge \<Rightarrow> 'h bridge option" where
  "write_pipe x s = (if 0 \<le> g_runr_pipe_fd s then pipe_write (length (runr_pipe s)) x s else Some s)"

definition eval_in_sandbox :: "('s, 'h) r_api \<Rightarrow> cstring \<Rightarrow> 'h bridge \<Rightarrow> 'h bridge option" where
  "eval_in_sandbox api code s = do {
     _ \<leftarrow> R_interrupts_pending s;
     let s1 = s\<lparr>R_interrupts_pending := Some 0\<rparr>;
     let (code_sexp, s2) = alloc (Rf_mkString api code) s1;
     let s3 = protect s2;
     (ps, result, s4) \<leftarrow> exec_parse api code_sexp s3;
     let parsed = or_nil api result;
     let s5 = protect s4;
     (if ps \<noteq> PARSE_OK then do { s6 \<leftarrow> write_pipe (bytes ''Parse error'' @ [10]) s5; unprotect 2 s6 }
      else do {
        let n = nat (Rf_length_fn api parsed (r_heap s5));
        s6 \<leftarrow> sandbox_loop api parsed [0..<n] s5;
        unprotect 2 s6
      })
   }"

definition vsize_code :: cstring where
  "vsize_code = bytes (''if (exists('' @ [CHR 39] @ ''mem.maxVSize'' @ [CHR 39] @
     '')) invisible(mem.maxVSize('' @ RUNR_MAX_VSIZE_MB @ ''))'')"

text \<open>What the child does once it is confined: route R's output to the pipe, cap the heap,
  evaluate.\<close>

definition child_evaluate :: "('s, 'h) r_api \<Rightarrow> int \<Rightarrow> cstring \<Rightarrow> 'h bridge \<Rightarrow> 'h bridge option" where
  "child_evaluate api fd code s = do {
     let s1 = s\<lparr>g_runr_pipe_fd := fd, write_console := Cb_runr_capture\<rparr>;
     (_, s2) \<leftarrow> eval_for_string api vsize_code s1;
     eval_in_sandbox api code s2
   }"

text \<open>
  The child on Linux, from the fork to its exit: the exit status, the state of its copy of the
  bridge, and its confinement. Only the worker thread survives the fork, so nobody interferes.
  The failure message is formatted into 256 bytes and written with the length that
  \<open>snprintf\<close> returned, which must not exceed them. It is the first write to the new pipe.
\<close>

definition run_child :: "'f kernel \<Rightarrow> cstring ptr \<Rightarrow> ('s, 'h) r_api \<Rightarrow> int \<Rightarrow> cstring \<Rightarrow> cstring ptr \<Rightarrow> 'f child \<Rightarrow>
    'h bridge \<Rightarrow> (int \<times> 'h bridge \<times> 'f child) option" where
  "run_child k home api fd code dyn c s =
     (case raoui_sandbox_apply k dyn home c of
        (rc, sberr, c1) \<Rightarrow>
          if rc \<noteq> 0 then
            (let (mn, m) = snprintf 256 (bytes (''[run_r] sandbox setup failed: '' @
                   (case sberr of None \<Rightarrow> ''unknown'' | Some e \<Rightarrow> e)) @ [10]) in
             if 256 < mn then None
             else do { s1 \<leftarrow> pipe_write 0 (take mn (m @ [0])) (s\<lparr>ui := []\<rparr>); Some (98, s1, c1) })
          else do {
            s1 \<leftarrow> child_evaluate api fd code (s\<lparr>ui := []\<rparr>);
            Some (0, s1, c1)
          })"

text \<open>On macOS the profile goes to \<open>sandbox_init\<close>, whose result is \<open>init_rc\<close>; other systems
  have no sandbox.\<close>

definition run_child_apple :: "int \<Rightarrow> ('s, 'h) r_api \<Rightarrow> int \<Rightarrow> cstring \<Rightarrow> 'h bridge \<Rightarrow> (int \<times> 'h bridge) option" where
  "run_child_apple init_rc api fd code s =
     (if init_rc \<noteq> 0
      then do { s1 \<leftarrow> pipe_write 0 (bytes ''[run_r] sandbox_init failed'' @ [10]) (s\<lparr>ui := []\<rparr>); Some (98, s1) }
      else do { s1 \<leftarrow> child_evaluate api fd code (s\<lparr>ui := []\<rparr>); Some (0, s1) })"

definition run_child_other :: "'h bridge \<Rightarrow> (int \<times> 'h bridge) option" where
  "run_child_other s = do {
     s1 \<leftarrow> pipe_write 0 (bytes ''[run_r] no sandbox available on this platform'' @ [10]) (s\<lparr>ui := []\<rparr>);
     Some (98, s1)
   }"

subsection \<open>The parent\<close>

text \<open>One round of the drain loop: the clock it reads (seconds and nanoseconds), then what
  \<open>poll\<close> and, if data is announced, \<open>read\<close> answer.\<close>

datatype poll_result = Poll_timeout | Poll_eintr | Poll_error | Poll_ready
datatype read_result = Read_data "byte list" | Read_eof | Read_eintr | Read_error

record round =
  now_sec :: int
  now_nsec :: int
  polled :: poll_result
  read_back :: read_result

definition elapsed_ms :: "int \<times> int \<Rightarrow> round \<Rightarrow> int" where
  "elapsed_ms t0 r = (now_sec r - fst t0) * 1000 + (now_nsec r - snd t0) sdiv 1000000"

record outbuf =
  ob_buf :: "byte list"
  ob_len :: nat
  ob_cap :: nat

text \<open>\<open>read\<close> delivers at most the 4096 bytes of \<open>tmp\<close>.\<close>

definition collect :: "byte list \<Rightarrow> outbuf \<Rightarrow> outbuf option" where
  "collect x o1 = do {
     tmp \<leftarrow> memcpy (replicate 4096 0) 0 x 0 (length x);
     let need = sz_add (sz_add (ob_len o1) (length x)) 1;
     let o2 = (if ob_cap o1 < need
       then (let c = sz_mul need 2 in o1\<lparr>ob_cap := c, ob_buf := realloc (Some (ob_buf o1)) c\<rparr>)
       else o1);
     b \<leftarrow> memcpy (ob_buf o2) (ob_len o2) tmp 0 (length x);
     Some (o2\<lparr>ob_buf := b, ob_len := sz_add (ob_len o2) (length x)\<rparr>)
   }"

text \<open>The loop: \<open>None\<close> if the rounds end before it does. The first component is
  \<open>timed_out\<close>.\<close>

fun drain :: "int \<times> int \<Rightarrow> round list \<Rightarrow> outbuf \<Rightarrow> (bool \<times> outbuf) option" where
  "drain t0 [] o1 = None"
| "drain t0 (r # rs) o1 =
     (if RUNR_WALL_TIMEOUT_MS - elapsed_ms t0 r \<le> 0 then Some (True, o1)
      else case polled r of
        Poll_timeout \<Rightarrow> Some (True, o1)
      | Poll_eintr \<Rightarrow> drain t0 rs o1
      | Poll_error \<Rightarrow> Some (False, o1)
      | Poll_ready \<Rightarrow>
          (case read_back r of
             Read_data x \<Rightarrow> if x = [] then Some (False, o1) else Option.bind (collect x o1) (drain t0 rs)
           | Read_eof \<Rightarrow> Some (False, o1)
           | Read_eintr \<Rightarrow> drain t0 rs o1
           | Read_error \<Rightarrow> Some (False, o1)))"

datatype wait_status = Exited int | Signaled int

definition SIGKILL :: int where "SIGKILL = 9"
definition SIGXCPU :: int where "SIGXCPU = 24"

text \<open>
  The blocking \<open>waitpid(pid, &st, 0)\<close>: it gives the status with which the child ends by itself, or
  fails (the call is not repeated after a signal), which leaves \<open>st\<close> at its initial 0, or the
  child never ends by itself. Then it ends only if it has been killed; otherwise the call never
  returns (\<open>None\<close>).
\<close>

datatype wait_answer = Wait_status wait_status | Wait_failed | Wait_blocks

definition waitpid_st :: "wait_answer \<Rightarrow> bool \<Rightarrow> wait_status option" where
  "waitpid_st w killed =
     (case w of
        Wait_status st \<Rightarrow> Some st
      | Wait_failed \<Rightarrow> Some (Exited 0)
      | Wait_blocks \<Rightarrow> if killed then Some (Signaled SIGKILL) else None)"

text \<open>The note on an abnormal end; the dash is the UTF-8 encoding of U+2014.\<close>

definition em_dash :: "byte list" where "em_dash = [226, 128, 148]"

definition exit_note :: "bool \<Rightarrow> wait_status \<Rightarrow> byte list" where
  "exit_note timed_out st =
     (if timed_out
      then [10] @ bytes (''[run_r: timed out after '' @ decimal (RUNR_WALL_TIMEOUT_MS sdiv 1000) @ ''s '') @ em_dash @ bytes '' killed]'' @ [10]
      else case st of
        Signaled sig \<Rightarrow>
          [10] @ bytes (''[run_r: child killed by signal '' @ decimal sig) @
            (if sig = SIGXCPU then bytes '' '' @ em_dash @ bytes '' CPU limit'' else []) @ bytes '']'' @ [10]
      | Exited _ \<Rightarrow> [])"

definition finish_output :: "byte list \<Rightarrow> outbuf \<Rightarrow> byte list option" where
  "finish_output note_text o1 = do {
     let (m, note) = snprintf 128 note_text;
     o2 \<leftarrow> (if 0 < m then do {
              let need = sz_add (sz_add (ob_len o1) m) 1;
              let o3 = (if ob_cap o1 < need
                then o1\<lparr>ob_cap := need, ob_buf := realloc (Some (ob_buf o1)) need\<rparr> else o1);
              b \<leftarrow> memcpy (ob_buf o3) (ob_len o3) (note @ [0]) 0 m;
              Some (o3\<lparr>ob_buf := b, ob_len := sz_add (ob_len o3) m\<rparr>)
            }
            else Some o1);
     store (ob_buf o2) (ob_len o2) 0
   }"

text \<open>What the operating system answers to one call of \<open>run_r_on_worker\<close> in the parent: the
  results of \<open>pipe\<close> and \<open>fork\<close>, the clock at the start, the rounds, and how the wait for the child goes.\<close>

record os_answers =
  pipe_rc :: int
  fork_rc :: int
  start_time :: "int \<times> int"
  rounds :: "round list"
  waited :: wait_answer

text \<open>The parent's side; the result is the block it returns, whether it killed the child, and the
  bridge.\<close>

definition run_r_on_worker :: "('s, 'h) r_api \<Rightarrow> os_answers \<Rightarrow> 'h bridge \<Rightarrow> (byte list \<times> bool \<times> 'h bridge) option" where
  "run_r_on_worker api os s = do {
     (dyn, s1) \<leftarrow> gather_runr_read_paths api s;
     (if pipe_rc os \<noteq> 0 then Some (bytes ''[run_r] pipe() failed'' @ [10, 0], False, s1)
      else if fork_rc os < 0 then Some (bytes ''[run_r] fork() failed'' @ [10, 0], False, s1)
      else do {
        (timed_out, o1) \<leftarrow> drain (start_time os) (rounds os) \<lparr>ob_buf = replicate 8192 0, ob_len = 0, ob_cap = 8192\<rparr>;
        st \<leftarrow> waitpid_st (waited os) timed_out;
        b \<leftarrow> finish_output (exit_note timed_out st) o1;
        Some (b, timed_out, s1)
      })
   }"

end
