(* ===== verification/Sandbox_Laws.thy ===== *)
theory Sandbox_Laws
  imports Sandbox_Linux
begin

section \<open>What the Linux sandbox guarantees\<close>

text \<open>
  Locations and the byte tests of \<open>same_path\<close> and \<open>is_strict_ancestor\<close>; which rules a
  successful \<open>apply_landlock\<close> leaves in force; the meaning of the seccomp filter; and the
  properties that follow.
\<close>

subsection \<open>Paths\<close>

text \<open>The names on a path are not empty and hold neither a slash nor a NUL.\<close>

definition valid_loc :: "loc \<Rightarrow> bool" where
  "valid_loc l \<longleftrightarrow> (\<forall>n \<in> set l. n \<noteq> [] \<and> 47 \<notin> set n \<and> 0 \<notin> set n)"

lemma valid_loc_simps [simp]:
  "valid_loc []" "valid_loc (n # l) \<longleftrightarrow> n \<noteq> [] \<and> 47 \<notin> set n \<and> 0 \<notin> set n \<and> valid_loc l"
  by (auto simp: valid_loc_def)

abbreviation slashed :: "loc \<Rightarrow> cstring" where "slashed l \<equiv> concat (map ((#) 47) l)"

lemma prefix_name:
  assumes "47 \<notin> set c" "47 \<notin> set d" "y = [] \<or> hd y = 47"
  shows "prefix (c @ 47 # x) (d @ y) \<longleftrightarrow> c = d \<and> prefix (47 # x) y"
  using assms
proof (induction c arbitrary: d)
  case Nil
  then show ?case by (cases d) auto
next
  case (Cons a c)
  note IH = Cons.IH and prems = Cons.prems
  show ?case
  proof (cases d)
    case Nil
    with prems show ?thesis by (cases y) auto
  next
    case (Cons b d')
    with prems IH [of d'] show ?thesis by auto
  qed
qed

lemma slashed_start: "slashed l = [] \<or> hd (slashed l) = 47"
  by (cases l) auto

text \<open>A location is strictly above another iff its path and a slash start the other's path.\<close>

lemma prefix_slashed:
  "valid_loc a \<Longrightarrow> valid_loc b \<Longrightarrow> prefix (slashed a @ [47]) (slashed b) \<longleftrightarrow> strict_prefix a b"
proof (induction a arbitrary: b)
  case Nil
  then show ?case by (cases b) auto
next
  case (Cons n a)
  show ?case
  proof (cases b)
    case Nil
    then show ?thesis by simp
  next
    case (Cons m b')
    have "prefix (n @ slashed a @ [47]) (m @ slashed b') \<longleftrightarrow> n = m \<and> prefix (slashed a @ [47]) (slashed b')"
    proof (cases a)
      case Nil
      with Cons.prems Cons prefix_name [of n m "slashed b'" "[]"] slashed_start show ?thesis by auto
    next
      case (Cons n' a')
      with \<open>valid_loc (n # a)\<close> \<open>valid_loc b\<close> \<open>b = m # b'\<close>
        prefix_name [of n m "slashed b'" "n' @ slashed a' @ [47]"] slashed_start [of b'] show ?thesis by auto
    qed
    with Cons Cons.IH [of b'] Cons.prems show ?thesis by auto
  qed
qed

lemma slashed_inject: "valid_loc a \<Longrightarrow> valid_loc b \<Longrightarrow> slashed a = slashed b \<Longrightarrow> a = b"
proof -
  assume v: "valid_loc a" "valid_loc b" and eq: "slashed a = slashed b"
  have v': "valid_loc (a @ [[1]])" "valid_loc (b @ [[1]])" using v by (auto simp: valid_loc_def)
  have "prefix (slashed a @ [47]) (slashed (b @ [[1]]))" "prefix (slashed b @ [47]) (slashed (a @ [[1]]))"
    using eq by auto
  then have "strict_prefix a (b @ [[1]])" "strict_prefix b (a @ [[1]])"
    using prefix_slashed v v' by blast+
  then have "prefix a b" "prefix b a" by (auto simp: strict_prefix_def prefix_snoc)
  then show "a = b" by (rule prefix_order.antisym)
qed

lemma path_of_inject:
  assumes "valid_loc a" "valid_loc b"
  shows "path_of a = path_of b \<longleftrightarrow> a = b"
proof
  assume eq: "path_of a = path_of b"
  have one: "slashed l \<noteq> [47]" if "valid_loc l" for l
    using that by (cases l) auto
  show "a = b"
    using eq slashed_inject [OF assms] one [OF assms(1)] one [OF assms(2)]
    by (cases "a = []"; cases "b = []") (auto simp: path_of_def)
qed simp

lemma slashed_no_nul: "valid_loc l \<Longrightarrow> 0 \<notin> set (path_of l)"
  by (auto simp: path_of_def valid_loc_def)

lemma ancestor_bytes:
  assumes "valid_loc a" "valid_loc b"
  shows "strncmp_eq (path_of a) (path_of b) (length (path_of a)) \<and>
      (path_of a = [47] \<or> (path_of b @ [0]) ! length (path_of a) = 47) \<longleftrightarrow> a = [] \<or> strict_prefix a b"
proof (cases "a = []")
  case True
  then show ?thesis
    by (cases b) (auto simp: path_of_def strncmp_eq_def)
next
  case False
  have pa: "path_of a = slashed a" "path_of a \<noteq> [47]"
    using False assms(1) by (cases a; auto simp: path_of_def)+
  have sn: "strncmp_eq (path_of a) (path_of b) (length (path_of a)) \<longleftrightarrow> prefix (path_of a) (path_of b)"
    by (rule strncmp_eq_prefix [OF slashed_no_nul [OF assms(1)]])
  have "prefix (path_of a) (path_of b) \<and> (path_of b @ [0]) ! length (path_of a) = 47
      \<longleftrightarrow> prefix (path_of a @ [47]) (path_of b)"
    by (auto simp: prefix_def nth_append neq_Nil_conv split: if_splits)
  also have "\<dots> \<longleftrightarrow> prefix (slashed a @ [47]) (slashed b)"
    using False by (cases a; cases "b = []") (auto simp: path_of_def prefix_def)
  also have "\<dots> \<longleftrightarrow> strict_prefix a b" by (rule prefix_slashed [OF assms])
  finally show ?thesis using sn pa(2) False by simp
qed

lemma realpath_Some:
  "realpath k f p = Some q \<longleftrightarrow> (\<exists>l. resolve k f p = Some l \<and> length (path_of l) < PATH_MAX \<and> q = path_of l)"
  by (auto simp: realpath_def)

lemma same_path_loc:
  assumes "resolve k f a = Some la" "resolve k f b = Some lb" "valid_loc la" "valid_loc lb"
    "length (path_of la) < PATH_MAX" "length (path_of lb) < PATH_MAX"
  shows "same_path k f a b \<longleftrightarrow> la = lb"
  using assms path_of_inject [OF assms(3,4)] by (simp add: same_path_def realpath_def)

lemma is_strict_ancestor_loc:
  assumes "resolve k f a = Some la" "resolve k f b = Some lb" "valid_loc la" "valid_loc lb"
    "length (path_of la) < PATH_MAX" "length (path_of lb) < PATH_MAX"
  shows "is_strict_ancestor k f a b \<longleftrightarrow> la = [] \<or> strict_prefix la lb"
proof -
  have "path_of la \<noteq> []" by (cases la) (auto simp: path_of_def)
  then show ?thesis
    using assms ancestor_bytes [OF assms(3,4)]
    by (auto simp: is_strict_ancestor_def realpath_def Let_def)
qed

subsection \<open>Which rules are added\<close>

text \<open>\<open>rules_ok P rs\<close>: every rule of the ruleset satisfies \<open>P\<close>.\<close>

definition rules_ok :: "(loc \<Rightarrow> u64 \<Rightarrow> bool) \<Rightarrow> ruleset \<Rightarrow> bool" where
  "rules_ok P rs \<longleftrightarrow> (\<forall>(l, a) \<in> set (snd rs). P l a)"

lemma rules_ok_Nil [simp]: "rules_ok P (h, [])"
  by (simp add: rules_ok_def)

text \<open>An invariant of the rules is kept by a grant if it holds of what the grant may add: the
  resolved location with the requested rights, or with those valid on a file.\<close>

definition grantable :: "'f kernel \<Rightarrow> 'f \<Rightarrow> (loc \<Rightarrow> u64 \<Rightarrow> bool) \<Rightarrow> u64 \<Rightarrow> cstring \<Rightarrow> bool" where
  "grantable k f P access path \<longleftrightarrow>
     (\<forall>l. resolve k f path = Some l \<longrightarrow> P l access \<and> P l (access AND FS_FILE_RIGHTS))"

lemma grant_path_rules:
  assumes "rules_ok P rs" "grantable k f P access path"
  shows "rules_ok P (snd (grant_path k f rs path access))" "fst (snd (grant_path k f rs path access)) = fst rs"
  using assms by (auto simp: grant_path_def rules_ok_def grantable_def Let_def split: option.splits)

lemma grant_children_rules:
  assumes "rules_ok P rs"
    "\<And>n. n \<in> set ns \<Longrightarrow> n \<noteq> [46] \<Longrightarrow> n \<noteq> [46, 46] \<Longrightarrow> \<not> is_secret_name n \<Longrightarrow> grantable k f P access (home @ [47] @ n)"
  shows "rules_ok P (grant_children k f rs home access ns)" "fst (grant_children k f rs home access ns) = fst rs"
proof -
  have "rules_ok P (grant_children k f rs home access ns) \<and> fst (grant_children k f rs home access ns) = fst rs"
    using assms
  proof (induction ns arbitrary: rs)
    case Nil
    then show ?case by simp
  next
    case (Cons n ns)
    show ?case
    proof (cases "n = [46] \<or> n = [46, 46] \<or> is_secret_name n \<or> PATH_MAX \<le> length (home @ [47] @ n)")
      case True
      with Cons show ?thesis by (auto simp: snprintf_def)
    next
      case False
      then have "grantable k f P access (home @ [47] @ n)" using Cons.prems(2) by simp
      note g = grant_path_rules [OF Cons.prems(1) this]
      have "snprintf PATH_MAX (home @ [47] @ n) = (length (home @ [47] @ n), home @ [47] @ n)"
        using False by (intro snprintf_fits) simp
      with False Cons.IH [OF g(1)] Cons.prems(2) g(2) show ?thesis by simp
    qed
  qed
  then show "rules_ok P (grant_children k f rs home access ns)" "fst (grant_children k f rs home access ns) = fst rs"
    by simp_all
qed

text \<open>The three cases of \<open>grant_read_tree\<close>.\<close>

lemma grant_read_tree_rules:
  assumes "rules_ok P rs"
    "\<And>h ns n. home = Some h \<Longrightarrow> same_path k f path h \<Longrightarrow> list_directory k f h = Some ns \<Longrightarrow> n \<in> set ns \<Longrightarrow>
       n \<noteq> [46] \<Longrightarrow> n \<noteq> [46, 46] \<Longrightarrow> \<not> is_secret_name n \<Longrightarrow> grantable k f P access (h @ [47] @ n)"
    "(\<And>h. home = Some h \<Longrightarrow> h \<noteq> [] \<Longrightarrow> \<not> same_path k f path h \<and> \<not> is_strict_ancestor k f path h) \<Longrightarrow>
       grantable k f P access path"
  shows "rules_ok P (snd (grant_read_tree k f rs path home access))"
    "fst (snd (grant_read_tree k f rs path home access)) = fst rs"
proof -
  let ?g = "grant_path k f rs path access"
  have direct: "rules_ok P (snd ?g)" "fst (snd ?g) = fst rs"
    if "\<And>h. home = Some h \<Longrightarrow> h \<noteq> [] \<Longrightarrow> \<not> same_path k f path h \<and> \<not> is_strict_ancestor k f path h"
    using grant_path_rules [OF assms(1) assms(3) [OF that]] by simp_all
  have "rules_ok P (snd (grant_read_tree k f rs path home access)) \<and>
    fst (snd (grant_read_tree k f rs path home access)) = fst rs"
  proof (cases home)
    case None
    with direct show ?thesis by (simp add: grant_read_tree_def)
  next
    case (Some h)
    show ?thesis
    proof (cases h)
      case Nil
      with Some direct show ?thesis by (simp add: grant_read_tree_def)
    next
      case (Cons b bs)
      consider (same) "same_path k f path h" | (above) "\<not> same_path k f path h" "is_strict_ancestor k f path h"
        | (other) "\<not> same_path k f path h" "\<not> is_strict_ancestor k f path h" by blast
      then show ?thesis
      proof cases
        case same
        with Some Cons grant_children_rules [OF assms(1) assms(2)] assms(1) show ?thesis
          by (auto simp: grant_read_tree_def grant_home_minus_secrets_def split: option.splits)
      next
        case above
        with Some Cons assms(1) show ?thesis by (simp add: grant_read_tree_def)
      next
        case other
        with Some Cons direct show ?thesis by (simp add: grant_read_tree_def)
      qed
    qed
  qed
  then show "rules_ok P (snd (grant_read_tree k f rs path home access))"
    "fst (snd (grant_read_tree k f rs path home access)) = fst rs" by simp_all
qed

text \<open>What a read grant of one path may rely on.\<close>

definition readable_tree :: "'f kernel \<Rightarrow> 'f \<Rightarrow> (loc \<Rightarrow> u64 \<Rightarrow> bool) \<Rightarrow> u64 \<Rightarrow> cstring ptr \<Rightarrow> cstring \<Rightarrow> bool" where
  "readable_tree k f P access home path \<longleftrightarrow>
     (\<forall>h ns n. home = Some h \<longrightarrow> same_path k f path h \<longrightarrow> list_directory k f h = Some ns \<longrightarrow> n \<in> set ns \<longrightarrow>
        n \<noteq> [46] \<longrightarrow> n \<noteq> [46, 46] \<longrightarrow> \<not> is_secret_name n \<longrightarrow> grantable k f P access (h @ [47] @ n)) \<and>
     ((\<forall>h. home = Some h \<longrightarrow> h \<noteq> [] \<longrightarrow> \<not> same_path k f path h \<and> \<not> is_strict_ancestor k f path h) \<longrightarrow>
        grantable k f P access path)"

lemma grant_read_trees_rules:
  assumes "rules_ok P rs" "\<And>p. p \<in> set paths \<Longrightarrow> readable_tree k f P access home p"
  shows "rules_ok P (grant_read_trees k f home access paths rs) \<and> fst (grant_read_trees k f home access paths rs) = fst rs"
  using assms
proof (induction paths arbitrary: rs)
  case Nil
  then show ?case by (simp add: grant_read_trees_def)
next
  case (Cons p paths)
  have t: "readable_tree k f P access home p" using Cons.prems(2) by simp
  have g: "rules_ok P (snd (grant_read_tree k f rs p home access))" "fst (snd (grant_read_tree k f rs p home access)) = fst rs"
    by (rule grant_read_tree_rules [OF Cons.prems(1)]; use t in \<open>auto simp: readable_tree_def\<close>)+
  from Cons.IH [OF g(1)] Cons.prems(2) g(2) show ?case by (simp add: grant_read_trees_def)
qed

lemmas rights_defs = FS_READ_RIGHTS_def FS_WRITE_RIGHTS_def FS_FILE_RIGHTS_def landlock_rights

lemma handled_rights_simps:
  "FS_READ_RIGHTS AND handled_rights k = FS_READ_RIGHTS"
  "(FS_READ_RIGHTS OR FS_WRITE_RIGHTS) AND handled_rights k = handled_rights k"
  "LANDLOCK_ACCESS_FS_WRITE_FILE AND handled_rights k = LANDLOCK_ACCESS_FS_WRITE_FILE"
  "LANDLOCK_ACCESS_FS_READ_FILE AND handled_rights k = LANDLOCK_ACCESS_FS_READ_FILE"
  "LANDLOCK_ACCESS_FS_READ_DIR AND handled_rights k = LANDLOCK_ACCESS_FS_READ_DIR"
  by (simp_all add: handled_rights_def rights_defs Let_def)

lemma apply_landlock_success:
  assumes "apply_landlock k dyn home c = (0, e, c')"
  obtains rs where "domain c' = Some (handled_rights k, rs)" "no_new_privs c'"
    "files c' = make_directory k RUNR_SCRATCH_DIR (files c)" "seccomp c' = seccomp c"
    "\<And>P. \<forall>p \<in> set SYS_READ_ROOTS. readable_tree k (files c) P FS_READ_RIGHTS home p \<Longrightarrow>
      \<forall>d. dyn = Some d \<longrightarrow> (\<forall>p \<in> set (strtok_nl d). readable_tree k (files c) P FS_READ_RIGHTS home p) \<Longrightarrow>
      grantable k (files c') P (handled_rights k) RUNR_SCRATCH_DIR \<Longrightarrow>
      grantable k (files c') P LANDLOCK_ACCESS_FS_WRITE_FILE (bytes ''/dev/null'') \<Longrightarrow>
      rules_ok P (handled_rights k, rs)"
proof -
  let ?h = "handled_rights k" and ?f = "files c" and ?f' = "make_directory k RUNR_SCRATCH_DIR (files c)"
  define rs1 where "rs1 = grant_read_trees k ?f home FS_READ_RIGHTS SYS_READ_ROOTS (?h, [])"
  define rs2 where "rs2 = (case dyn of None \<Rightarrow> rs1
    | Some d \<Rightarrow> grant_read_trees k ?f home FS_READ_RIGHTS (filter (\<lambda>t. t \<noteq> []) (strtok_nl d)) rs1)"
  define rs3 where "rs3 = snd (grant_path k ?f' rs2 RUNR_SCRATCH_DIR ?h)"
  define rs4 where "rs4 = snd (grant_path k ?f' rs3 (bytes ''/dev/null'') LANDLOCK_ACCESS_FS_WRITE_FILE)"
  have c': "c' = c\<lparr>files := ?f', no_new_privs := True, domain := Some rs4\<rparr>"
    using assms
    unfolding apply_landlock_def Let_def handled_rights_simps rs4_def rs3_def rs2_def rs1_def
    by (auto simp del: bytes_simps split: if_splits)
  have keep: "rules_ok P rs4 \<and> fst rs4 = ?h"
    if r: "\<forall>p \<in> set SYS_READ_ROOTS. readable_tree k ?f P FS_READ_RIGHTS home p"
      "\<forall>d. dyn = Some d \<longrightarrow> (\<forall>p \<in> set (strtok_nl d). readable_tree k ?f P FS_READ_RIGHTS home p)"
      "grantable k ?f' P ?h RUNR_SCRATCH_DIR" "grantable k ?f' P LANDLOCK_ACCESS_FS_WRITE_FILE (bytes ''/dev/null'')" for P
  proof -
    have 1: "rules_ok P rs1 \<and> fst rs1 = ?h"
      unfolding rs1_def using grant_read_trees_rules [of P "(?h, [])" SYS_READ_ROOTS k ?f FS_READ_RIGHTS home] r(1) by simp
    then have 2: "rules_ok P rs2 \<and> fst rs2 = ?h"
      unfolding rs2_def using grant_read_trees_rules [of P rs1 "filter (\<lambda>t. t \<noteq> []) (strtok_nl d)" k ?f FS_READ_RIGHTS home for d] r(2)
      by (cases dyn) auto
    then have 3: "rules_ok P rs3 \<and> fst rs3 = ?h"
      unfolding rs3_def using grant_path_rules [of P rs2, OF _ r(3)] by simp
    then show ?thesis
      unfolding rs4_def using grant_path_rules [of P rs3, OF _ r(4)] by (simp del: bytes_simps)
  qed
  have "fst rs4 = ?h"
    using keep [of "\<lambda>_ _. True"] by (auto simp: readable_tree_def grantable_def)
  then show thesis
    using that [of "snd rs4"] c' keep by (cases rs4) (auto simp del: bytes_simps)
qed

text \<open>A rule that the kernel rejects is not in the ruleset: the domain grants less then, never
  more.\<close>

definition accepted :: "'f kernel \<Rightarrow> ruleset \<Rightarrow> bool" where
  "accepted k rs \<longleftrightarrow> (\<forall>(l, a) \<in> set (snd rs). add_rule k (fst rs) l a = 0)"

lemma grant_path_accepted_rules: "accepted k rs \<Longrightarrow> accepted k (snd (grant_path k f rs path access))"
  by (auto simp: grant_path_def accepted_def Let_def split: option.splits)

lemma grant_children_accepted: "accepted k rs \<Longrightarrow> accepted k (grant_children k f rs home access ns)"
  by (induction ns arbitrary: rs) (auto simp: Let_def grant_path_accepted_rules split: prod.splits)

lemma grant_read_trees_accepted: "accepted k rs \<Longrightarrow> accepted k (grant_read_trees k f home access paths rs)"
proof (induction paths arbitrary: rs)
  case Nil
  then show ?case by (simp add: grant_read_trees_def)
next
  case (Cons p paths)
  have "accepted k (snd (grant_read_tree k f rs p home access))"
    using Cons.prems grant_path_accepted_rules [OF Cons.prems] grant_children_accepted [OF Cons.prems]
    by (auto simp: grant_read_tree_def grant_home_minus_secrets_def split: option.splits list.splits)
  from Cons.IH [OF this] show ?case by (simp add: grant_read_trees_def)
qed

lemma apply_landlock_accepted:
  assumes "apply_landlock k dyn home c = (0, e, c')" "domain c' = Some rs"
  shows "accepted k rs"
proof -
  have "accepted k (handled_rights k, [])" by (simp add: accepted_def)
  with assms show ?thesis
    by (auto simp: apply_landlock_def Let_def simp del: bytes_simps
        intro!: grant_path_accepted_rules grant_read_trees_accepted split: if_splits option.splits)
qed

text \<open>The reasons are short.\<close>

lemma sandbox_error_short:
  "raoui_sandbox_apply k dyn home c = (rc, err, c') \<Longrightarrow> length (case err of None \<Rightarrow> ''unknown'' | Some e \<Rightarrow> e) < 100"
  by (auto simp: raoui_sandbox_apply_def apply_seccomp_def apply_landlock_def Let_def simp del: bytes_simps
      split: prod.splits if_splits)

subsection \<open>Landlock's meaning\<close>

text \<open>
  A process in a domain may use one right on the file at a location if the domain does not
  handle the right, or if some rule grants it on the location itself or on a directory above.
  This is Landlock's documented behaviour for a right that is not split over several rules.
\<close>

definition allows :: "ruleset \<Rightarrow> u64 \<Rightarrow> loc \<Rightarrow> bool" where
  "allows rs r p \<longleftrightarrow> r AND fst rs = 0 \<or> (\<exists>(l, a) \<in> set (snd rs). a AND r \<noteq> 0 \<and> prefix l p)"

lemma not_allowed:
  assumes "rules_ok (\<lambda>l a. a AND r = 0 \<or> \<not> prefix l p) rs" "r AND fst rs \<noteq> 0"
  shows "\<not> allows rs r p"
  using assms by (auto simp: allows_def rules_ok_def)

text \<open>Reading the secrets. A path that grants read access is harmless for the file \<open>p\<close> beneath
  the secret \<open>s\<close> if it does not itself lie inside the secret.\<close>

lemma read_tree_spares_secret:
  assumes "resolve k f h = Some hl" "length (path_of hl) < PATH_MAX" "h \<noteq> []"
    "\<And>q l. resolve k f q = Some l \<Longrightarrow> valid_loc l"
    "\<And>ns n l. list_directory k f h = Some ns \<Longrightarrow> n \<in> set ns \<Longrightarrow> n \<noteq> [46] \<Longrightarrow> n \<noteq> [46, 46] \<Longrightarrow>
       resolve k f (h @ [47] @ n) = Some l \<Longrightarrow> l = hl @ [n]"
    "\<And>l. resolve k f path = Some l \<Longrightarrow> length (path_of l) < PATH_MAX \<and> \<not> prefix (hl @ [s]) l"
    "is_secret_name s" "prefix (hl @ [s]) p"
  shows "readable_tree k f (\<lambda>l a. a AND r = 0 \<or> \<not> prefix l p) access (Some h) path"
proof -
  have child: "\<not> prefix l p" if n: "\<not> is_secret_name n" "list_directory k f h = Some ns" "n \<in> set ns"
    "n \<noteq> [46]" "n \<noteq> [46, 46]" "resolve k f (h @ [47] @ n) = Some l" for n ns l
  proof
    assume "prefix l p"
    then have "prefix (hl @ [n]) p" using assms(5) [OF n(2-6)] by simp
    with assms(8) have "n = s" by (auto simp: prefix_def)
    with n(1) assms(7) show False by simp
  qed
  have direct: "\<not> prefix l p" if l: "resolve k f path = Some l"
    "\<not> same_path k f path h" "\<not> is_strict_ancestor k f path h" for l
  proof
    assume "prefix l p"
    have v: "valid_loc l" "valid_loc hl" using assms(1,4) l(1) by blast+
    have len: "length (path_of l) < PATH_MAX" and out: "\<not> prefix (hl @ [s]) l" using assms(6) [OF l(1)] by auto
    have "l \<noteq> hl" "\<not> strict_prefix l hl"
      using same_path_loc [OF l(1) assms(1) v len assms(2)] is_strict_ancestor_loc [OF l(1) assms(1) v len assms(2)] l(2,3)
      by auto
    moreover have "prefix l (hl @ [s]) \<or> prefix (hl @ [s]) l"
      using prefix_same_cases [OF \<open>prefix l p\<close> assms(8)] .
    ultimately show False using out by (auto simp: prefix_snoc strict_prefix_def)
  qed
  show ?thesis
    unfolding readable_tree_def grantable_def using child direct assms(3) by blast
qed

end
