(* ===== verification/Run_R_Laws.thy ===== *)
theory Run_R_Laws
  imports Run_R Sandbox_Laws
begin

section \<open>What sandboxed evaluation guarantees\<close>

text \<open>
  The parent's buffer holds exactly what was read, its loop ends by the watchdog's deadline, and
  the answer is that output with a note on an abnormal end. The child evaluates only under the
  sandbox and balances the protection stack.
\<close>

subsection \<open>The parent's buffer\<close>

definition ob_ok :: "outbuf \<Rightarrow> byte list \<Rightarrow> bool" where
  "ob_ok o1 x \<longleftrightarrow> length (ob_buf o1) = ob_cap o1 \<and> ob_len o1 = length x \<and> length x < ob_cap o1 \<and>
     take (length x) (ob_buf o1) = x"

lemma collect_ok:
  assumes "ob_ok o1 x" "length y \<le> 4096" "length x + length y < 2 ^ 62"
  obtains o2 where "collect y o1 = Some o2" "ob_ok o2 (x @ y)"
proof -
  let ?n = "length x + length y + 1" and ?tmp = "y @ replicate (4096 - length y) 0"
  have tmp: "memcpy (replicate 4096 0) 0 y 0 (length y) = Some ?tmp" using assms(2) by (simp add: memcpy_def)
  have need: "sz_add (sz_add (ob_len o1) (length y)) 1 = ?n" and dbl: "sz_mul ?n 2 = ?n * 2"
    using assms(1,3) by (simp_all add: ob_ok_def c_simps)
  define o2 where "o2 = (if ob_cap o1 < ?n
      then o1\<lparr>ob_cap := ?n * 2, ob_buf := realloc (Some (ob_buf o1)) (?n * 2)\<rparr> else o1)"
  have o2: "length (ob_buf o2) = ob_cap o2" "ob_len o2 = length x" "?n \<le> ob_cap o2" "take (length x) (ob_buf o2) = x"
    using assms(1) take_realloc [of "length x" "ob_buf o1" "?n * 2"] by (auto simp: o2_def ob_ok_def)
  let ?b = "take (length x) (ob_buf o2) @ y @ drop (length x + length y) (ob_buf o2)"
  have cp: "memcpy (ob_buf o2) (ob_len o2) ?tmp 0 (length y) = Some ?b"
    using o2 by (simp add: memcpy_def)
  have len: "sz_add (ob_len o2) (length y) = length x + length y" using o2(2) assms(3) by (simp add: c_simps)
  have "collect y o1 = Some (o2\<lparr>ob_buf := ?b, ob_len := length x + length y\<rparr>)"
    unfolding collect_def tmp Option.bind.simps Let_def need dbl o2_def [symmetric] cp len ..
  moreover have "ob_ok (o2\<lparr>ob_buf := ?b, ob_len := length x + length y\<rparr>) (x @ y)"
    using o2 by (auto simp: ob_ok_def)
  ultimately show thesis by (rule that)
qed

text \<open>What the loop receives, without the buffer.\<close>

fun received :: "int \<times> int \<Rightarrow> round list \<Rightarrow> (bool \<times> byte list) option" where
  "received t0 [] = None"
| "received t0 (r # rs) =
     (if RUNR_WALL_TIMEOUT_MS \<le> elapsed_ms t0 r then Some (True, [])
      else case polled r of
        Poll_timeout \<Rightarrow> Some (True, [])
      | Poll_eintr \<Rightarrow> received t0 rs
      | Poll_error \<Rightarrow> Some (False, [])
      | Poll_ready \<Rightarrow>
          (case read_back r of
             Read_data x \<Rightarrow> if x = [] then Some (False, []) else map_option (apsnd ((@) x)) (received t0 rs)
           | Read_eintr \<Rightarrow> received t0 rs
           | _ \<Rightarrow> Some (False, [])))"

definition sane_rounds :: "round list \<Rightarrow> bool" where
  "sane_rounds rs \<longleftrightarrow> (\<forall>r \<in> set rs. \<forall>x. read_back r = Read_data x \<longrightarrow> length x \<le> 4096) \<and> length rs < 2 ^ 48"

lemma drain_received:
  assumes "ob_ok o1 x" "\<forall>r \<in> set rs. \<forall>y. read_back r = Read_data y \<longrightarrow> length y \<le> 4096"
    "length x + 4096 * length rs < 2 ^ 62"
  shows "case received t0 rs of
      None \<Rightarrow> drain t0 rs o1 = None
    | Some (t, y) \<Rightarrow> \<exists>o2. drain t0 rs o1 = Some (t, o2) \<and> ob_ok o2 (x @ y)"
  using assms
proof (induction rs arbitrary: o1 x)
  case Nil
  then show ?case by simp
next
  case (Cons r rs)
  show ?case
  proof (cases "elapsed_ms t0 r < RUNR_WALL_TIMEOUT_MS \<and> polled r = Poll_ready \<and> (\<exists>y. read_back r = Read_data y \<and> y \<noteq> [])")
    case True
    then obtain y where y: "elapsed_ms t0 r < RUNR_WALL_TIMEOUT_MS" "polled r = Poll_ready" "read_back r = Read_data y" "y \<noteq> []"
      by blast
    have "length y \<le> 4096" using Cons.prems(2) y(3) by simp
    have "length x + length y < 2 ^ 62" using Cons.prems(3) \<open>length y \<le> 4096\<close> by simp
    with \<open>length y \<le> 4096\<close> obtain o2 where o2: "collect y o1 = Some o2" "ob_ok o2 (x @ y)"
      by (rule collect_ok [OF Cons.prems(1)])
    have "length (x @ y) + 4096 * length rs < 2 ^ 62" using Cons.prems(3) \<open>length y \<le> 4096\<close> by simp
    from Cons.IH [OF o2(2) _ this] Cons.prems(2) y o2(1) show ?thesis
      by (auto split: option.splits)
  next
    case False
    with Cons show ?thesis
      by (auto split: option.splits poll_result.splits read_result.splits)
  qed
qed

lemma received_length:
  "received t0 rs = Some (t, y) \<Longrightarrow> \<forall>r \<in> set rs. \<forall>x. read_back r = Read_data x \<longrightarrow> length x \<le> 4096 \<Longrightarrow>
   length y \<le> 4096 * length rs"
proof (induction rs arbitrary: y)
  case Nil
  then show ?case by simp
next
  case (Cons r rs)
  then show ?case
    by (fastforce split: if_splits poll_result.splits read_result.splits)
qed

text \<open>The loop is over at the latest in the first round that starts at the deadline.\<close>

lemma received_by_deadline:
  "\<exists>r \<in> set rs. RUNR_WALL_TIMEOUT_MS \<le> elapsed_ms t0 r \<Longrightarrow> received t0 rs \<noteq> None"
  by (induction rs) (auto split: poll_result.splits read_result.splits)

lemma length_exit_note:
  assumes "\<And>sig. st = Signaled sig \<Longrightarrow> 0 \<le> sig \<and> sig < 128"
  shows "length (exit_note t st) < 128"
proof -
  have t: "RUNR_WALL_TIMEOUT_MS sdiv 1000 = 30" by (simp add: RUNR_WALL_TIMEOUT_MS_def signed_divide_int_def)
  have "length (decimal 30) \<le> 11" by (rule length_decimal) simp_all
  then have "length (exit_note True st) < 128" by (simp add: exit_note_def t em_dash_def)
  moreover have "length (exit_note False st) < 128"
  proof (cases st)
    case (Signaled sig)
    have "length (decimal sig) \<le> 11" using assms [OF Signaled] by (intro length_decimal) auto
    then show ?thesis by (auto simp: exit_note_def Signaled em_dash_def)
  qed (simp add: exit_note_def)
  ultimately show ?thesis by (cases t) simp_all
qed

lemma finish_output_ok:
  assumes "ob_ok o1 x" "length note < 128" "length x < 2 ^ 62"
  obtains b rest where "finish_output note o1 = Some b" "b = x @ note @ 0 # rest"
proof -
  have sn: "snprintf 128 note = (length note, note)" using assms(2) by (rule snprintf_fits)
  show thesis
  proof (cases "note = []")
    case True
    let ?b = "(ob_buf o1)[length x := 0]"
    have "finish_output note o1 = Some ?b"
      using assms(1) True by (simp add: finish_output_def snprintf_def ob_ok_def store_def)
    moreover have "?b = x @ note @ 0 # drop (Suc (length x)) (ob_buf o1)"
      using assms(1) True by (auto simp: ob_ok_def upd_conv_take_nth_drop)
    ultimately show thesis by (rule that)
  next
    case False
    let ?n = "length x + length note + 1"
    have need: "sz_add (sz_add (ob_len o1) (length note)) 1 = ?n"
      using assms by (simp add: ob_ok_def c_simps)
    define o2 where "o2 = (if ob_cap o1 < ?n
        then o1\<lparr>ob_cap := ?n, ob_buf := realloc (Some (ob_buf o1)) ?n\<rparr> else o1)"
    have o2: "ob_len o2 = length x" "?n \<le> length (ob_buf o2)" "take (length x) (ob_buf o2) = x"
      using assms(1) take_realloc [of "length x" "ob_buf o1" ?n] by (auto simp: o2_def ob_ok_def)
    let ?b = "x @ note @ drop (length x + length note) (ob_buf o2)"
    have cp: "memcpy (ob_buf o2) (ob_len o2) (note @ [0]) 0 (length note) = Some ?b"
      using o2 by (simp add: memcpy_def)
    have len: "sz_add (ob_len o2) (length note) = length x + length note" using o2(1) assms by (simp add: c_simps)
    have "finish_output note o1 = store ?b (length x + length note) 0"
      unfolding finish_output_def sn Let_def split need o2_def [symmetric]
      using False cp len by simp
    moreover have "store ?b (length x + length note) 0 = Some (?b[length x + length note := 0])"
      using o2(2) by (simp add: store_def)
    moreover have "?b[length x + length note := 0] = x @ note @ 0 # drop ?n (ob_buf o2)"
      using o2(2) by (simp add: list_update_append Cons_nth_drop_Suc [symmetric])
    ultimately show thesis using that by metis
  qed
qed

text \<open>The pipe hands over \<open>x\<close> in pieces before the deadline and then reports its end.\<close>

fun delivers :: "int \<times> int \<Rightarrow> byte list \<Rightarrow> round list \<Rightarrow> bool" where
  "delivers t0 x [] = False"
| "delivers t0 x (r # rs) =
     (elapsed_ms t0 r < RUNR_WALL_TIMEOUT_MS \<and>
      (polled r = Poll_eintr \<and> delivers t0 x rs \<or>
       polled r = Poll_ready \<and>
         (case read_back r of
            Read_data c \<Rightarrow> c \<noteq> [] \<and> take (length c) x = c \<and> delivers t0 (drop (length c) x) rs
          | Read_eof \<Rightarrow> x = []
          | Read_eintr \<Rightarrow> delivers t0 x rs
          | Read_error \<Rightarrow> False)))"

lemma delivers_received: "delivers t0 x rs \<Longrightarrow> received t0 rs = Some (False, x)"
proof (induction rs arbitrary: x)
  case Nil
  then show ?case by simp
next
  case (Cons r rs)
  then show ?case
    by (cases "read_back r") (auto, metis append_take_drop_id)
qed

text \<open>
  The operating system answers within the watchdog's reach: a call fails at once, or some round
  starts at the deadline or the pipe comes to its end before; a child that the watchdog does not
  kill ends by itself; signals have their usual numbers, and \<open>read\<close> keeps to its buffer.
  \<open>runr_reply\<close> is what the caller of \<open>run_r\<close> gets to see then.
\<close>

definition signals_ok :: "os_answers \<Rightarrow> bool" where
  "signals_ok os \<longleftrightarrow> (\<forall>sig. waited os = Wait_status (Signaled sig) \<longrightarrow> 0 \<le> sig \<and> sig < 128)"

definition responsive :: "os_answers \<Rightarrow> bool" where
  "responsive os \<longleftrightarrow> pipe_rc os \<noteq> 0 \<or> fork_rc os < 0 \<or>
     sane_rounds (rounds os) \<and>
     ((\<exists>r \<in> set (rounds os). RUNR_WALL_TIMEOUT_MS \<le> elapsed_ms (start_time os) r) \<or> (\<exists>x. delivers (start_time os) x (rounds os))) \<and>
     (waited os = Wait_blocks \<longrightarrow> (\<forall>y. received (start_time os) (rounds os) \<noteq> Some (False, y))) \<and>
     signals_ok os"

definition runr_reply :: "os_answers \<Rightarrow> cstring" where
  "runr_reply os =
     (if pipe_rc os \<noteq> 0 then bytes ''[run_r] pipe() failed'' @ [10]
      else if fork_rc os < 0 then bytes ''[run_r] fork() failed'' @ [10]
      else case received (start_time os) (rounds os) of
        None \<Rightarrow> []
      | Some (t, y) \<Rightarrow>
          (case waitpid_st (waited os) t of None \<Rightarrow> [] | Some st \<Rightarrow> until_nul (y @ exit_note t st)))"

lemma waitpid_st_blocks: "waitpid_st w killed = None \<longleftrightarrow> \<not> killed \<and> w = Wait_blocks"
  by (simp add: waitpid_st_def split: wait_answer.splits)

lemma waitpid_st_signal:
  "signals_ok os \<Longrightarrow> waitpid_st (waited os) t = Some (Signaled sig) \<Longrightarrow> 0 \<le> sig \<and> sig < 128"
  by (auto simp: waitpid_st_def signals_ok_def SIGKILL_def split: wait_answer.splits if_splits)

lemma drain_ends:
  assumes "sane_rounds (rounds os)" "received (start_time os) (rounds os) \<noteq> None"
    "signals_ok os"
  obtains t y o2 where "received (start_time os) (rounds os) = Some (t, y)"
    "drain (start_time os) (rounds os) \<lparr>ob_buf = replicate 8192 0, ob_len = 0, ob_cap = 8192\<rparr> = Some (t, o2)"
    "\<forall>st. waitpid_st (waited os) t = Some st \<longrightarrow>
      (\<exists>rest. finish_output (exit_note t st) o2 = Some (y @ exit_note t st @ 0 # rest))"
proof -
  let ?o = "\<lparr>ob_buf = replicate 8192 0, ob_len = 0, ob_cap = 8192\<rparr>"
  obtain t y where ty: "received (start_time os) (rounds os) = Some (t, y)"
    using assms(2) by auto
  have ob: "ob_ok ?o []" by (simp add: ob_ok_def)
  have rounds: "\<forall>r \<in> set (rounds os). \<forall>y. read_back r = Read_data y \<longrightarrow> length y \<le> 4096" "length (rounds os) < 2 ^ 48"
    using assms(1) by (auto simp: sane_rounds_def)
  have "\<exists>o2. drain (start_time os) (rounds os) ?o = Some (t, o2) \<and> ob_ok o2 ([] @ y)"
    using drain_received [OF ob rounds(1), of "start_time os"] rounds(2) ty by simp
  then obtain o2 where o2: "drain (start_time os) (rounds os) ?o = Some (t, o2)" "ob_ok o2 y" by auto
  have "length y < 2 ^ 62" using received_length [OF ty rounds(1)] rounds(2) by simp
  then have "\<exists>rest. finish_output (exit_note t st) o2 = Some (y @ exit_note t st @ 0 # rest)"
    if h: "waitpid_st (waited os) t = Some st" for st
    using finish_output_ok [OF o2(2) length_exit_note, of st t] waitpid_st_signal [OF assms(3)] h by metis
  with that ty o2(1) show thesis by blast
qed

lemma gather_returns:
  assumes "cooperative api" "emits s ms d s'" "write_console s = Cb_write_console_ex"
  obtains dyn s1 ns where "gather_runr_read_paths api s' = Some (dyn, s1)" "chatter ns" "emits s (ms @ ns) d s1"
proof -
  obtain dyn s1 where g: "gather_runr_read_paths api s' = Some (dyn, s1)"
    unfolding gather_runr_read_paths_def by (rule eval_for_string_returns [OF assms])
  show thesis
    by (rule eval_for_string_emits [OF g [unfolded gather_runr_read_paths_def] assms(2,3)]) (rule that [OF g])
qed

lemma run_r_on_worker_reply:
  assumes "cooperative api" "emits s ms d s'" "write_console s = Cb_write_console_ex" "responsive os"
  obtains b k s'' ns where "run_r_on_worker api os s' = Some (b, k, s'')" "c_str b = Some (runr_reply os)"
    "chatter ns" "emits s (ms @ ns) d s''"
proof -
  obtain dyn s1 ns where g: "gather_runr_read_paths api s' = Some (dyn, s1)" "chatter ns" "emits s (ms @ ns) d s1"
    by (rule gather_returns [OF assms(1-3)])
  have "\<exists>b k. run_r_on_worker api os s' = Some (b, k, s1) \<and> c_str b = Some (runr_reply os)"
  proof (cases "pipe_rc os \<noteq> 0 \<or> fork_rc os < 0")
    case True
    then show ?thesis by (auto simp: run_r_on_worker_def g(1) runr_reply_def)
  next
    case False
    then have ok: "sane_rounds (rounds os)" "received (start_time os) (rounds os) \<noteq> None" "signals_ok os"
      "waited os = Wait_blocks \<longrightarrow> (\<forall>y. received (start_time os) (rounds os) \<noteq> Some (False, y))"
      using assms(4) received_by_deadline [of "rounds os" "start_time os"] delivers_received [of "start_time os" _ "rounds os"]
      by (auto simp: responsive_def)
    obtain t y o2 where d: "received (start_time os) (rounds os) = Some (t, y)"
      "drain (start_time os) (rounds os) \<lparr>ob_buf = replicate 8192 0, ob_len = 0, ob_cap = 8192\<rparr> = Some (t, o2)"
      "\<forall>st. waitpid_st (waited os) t = Some st \<longrightarrow>
        (\<exists>rest. finish_output (exit_note t st) o2 = Some (y @ exit_note t st @ 0 # rest))"
      by (rule drain_ends [OF ok(1-3)])
    obtain st where st: "waitpid_st (waited os) t = Some st"
      using ok(4) d(1) waitpid_st_blocks [of "waited os" t] by (cases t) auto
    then obtain rest where b: "finish_output (exit_note t st) o2 = Some (y @ exit_note t st @ 0 # rest)" using d(3) by blast
    have "c_str (y @ exit_note t st @ 0 # rest) = Some (runr_reply os)"
      using c_str_append_nul [of "y @ exit_note t st" rest] False d(1) st by (simp add: runr_reply_def)
    then show ?thesis using False g(1) d(2) st b by (simp add: run_r_on_worker_def)
  qed
  with that g show thesis by blast
qed

subsection \<open>The child\<close>

text \<open>
  \<open>child_run s d s'\<close>: the child got from \<open>s\<close> to \<open>s'\<close>, appending to the pipe only; the
  protection stack is now \<open>d\<close> high.
\<close>

definition child_run :: "'h bridge \<Rightarrow> nat \<Rightarrow> 'h bridge \<Rightarrow> bool" where
  "child_run s d s' \<longleftrightarrow> live s' \<and> protect_depth s' = d \<and> prefix (runr_pipe s) (runr_pipe s') \<and>
     write_console s' = write_console s \<and> g_runr_pipe_fd s' = g_runr_pipe_fd s"

lemma child_run_refl: "live s \<Longrightarrow> child_run s (protect_depth s) s"
  by (simp add: child_run_def)

lemma child_run_trans: "child_run s d s' \<Longrightarrow> child_run s' e s'' \<Longrightarrow> child_run s e s''"
  by (auto simp: child_run_def)

lemma callback_child_run: "callback_run s s' \<Longrightarrow> child_run s (protect_depth s) s'"
  by (auto simp: callback_run_def child_run_def steady_def extends_def)

lemma child_run_local:
  assumes "child_run s d s'"
  shows "child_run s d (s'\<lparr>r_heap := h\<rparr>)" "child_run s d (s'\<lparr>R_interrupts_pending := p\<rparr>)"
    "child_run s (Suc d) (protect s')" "child_run s d (snd (alloc f s'))"
  using assms by (auto simp: child_run_def protect_def live_def alloc_def split_beta)

lemma pipe_write_run:
  assumes "pipe_write n x s = Some s'" "live s"
  shows "child_run s (protect_depth s) s'"
  using assms by (auto simp: pipe_write_def child_run_def live_def Let_def split: list.splits pipe_answer.splits)

lemma write_pipe_run:
  assumes "write_pipe x s' = Some s''" "child_run s d s'"
  shows "child_run s d s''"
proof -
  have "live s'" "protect_depth s' = d" using assms(2) by (simp_all add: child_run_def)
  with assms(1) child_run_refl [of s'] pipe_write_run [of _ x s' s''] have "child_run s' d s''"
    by (auto simp: write_pipe_def split: if_splits)
  with assms(2) show ?thesis by (rule child_run_trans)
qed

lemma child_run_unprotect:
  assumes "child_run s (d + n) s'"
  shows "unprotect n s' = Some (s'\<lparr>protect_depth := d\<rparr>)" "child_run s d (s'\<lparr>protect_depth := d\<rparr>)"
  using assms by (auto simp: child_run_def unprotect_def live_def)

lemma child_write_run:
  assumes "live s" "write_console s = Cb_runr_capture" "write_console_ex x otype s = Some s'"
  shows "child_run s (protect_depth s) s'"
  using assms child_run_refl [OF assms(1)] pipe_write_run [OF _ assms(1)]
  by (auto simp: write_console_ex_def cb_runr_capture_def split: if_splits)

lemma child_rcall_run:
  "run_rcall t s = Some (r, s') \<Longrightarrow> live s \<Longrightarrow> write_console s = Cb_runr_capture \<Longrightarrow> child_run s (protect_depth s) s'"
proof (induction t arbitrary: s)
  case (R_write x otype k)
  then obtain s1 where s1: "write_console_ex x otype s = Some s1" "run_rcall k s1 = Some (r, s')" by auto
  from child_write_run [OF R_write.prems(2,3) s1(1)] R_write.IH [OF s1(2)] R_write.prems(3) show ?case
    by (auto simp: child_run_def)
next
  case (R_message msg k)
  obtain s1 where s1: "cb_show_message msg s = Some s1" "callback_run s s1"
    by (rule show_message_run [OF R_message.prems(2)])
  from callback_child_run [OF s1(2)] R_message.IH [of s1] R_message.prems s1(1) show ?case
    by (auto simp: child_run_def)
next
  case (R_read prompt len k)
  then obtain line s1 where s1: "cb_read_console prompt len s = Some (line, s1)" "run_rcall (k line) s1 = Some (r, s')"
    by auto
  from callback_child_run [OF read_console_partial [OF s1(1) R_read.prems(2)]] R_read.IH [OF rangeI s1(2)] R_read.prems(3)
  show ?case by (auto simp: child_run_def)
next
  case (R_enter_passthrough k)
  then obtain s1 where s1: "raoui_enter_passthrough s = Some s1" "run_rcall k s1 = Some (r, s')" by auto
  from callback_child_run [OF enter_passthrough_partial [OF s1(1) R_enter_passthrough.prems(2)]]
    R_enter_passthrough.IH [OF s1(2)] R_enter_passthrough.prems(3) show ?case by (auto simp: child_run_def)
next
  case (R_exit_passthrough k)
  obtain s1 where s1: "raoui_exit_passthrough s = Some s1" "callback_run s s1"
    by (rule exit_passthrough_run [OF R_exit_passthrough.prems(2)])
  from callback_child_run [OF s1(2)] R_exit_passthrough.IH [of s1] R_exit_passthrough.prems s1(1) show ?case
    by (auto simp: child_run_def)
next
  case (R_emit_image a b c d e k)
  obtain s1 where s1: "raoui_emit_image a b c d e s = Some s1" "callback_run s s1"
    by (rule emit_image_run [OF R_emit_image.prems(2)])
  from callback_child_run [OF s1(2)] R_emit_image.IH [of s1] R_emit_image.prems s1(1) show ?case
    by (auto simp: child_run_def)
qed (auto simp: cb_flush_console_def child_run_def live_def)

lemma child_toplevel_run:
  assumes "toplevel_exec api t s' = Some (r, s'')" "child_run s d s'" "write_console s = Cb_runr_capture"
  shows "child_run s d s''"
proof -
  have "run_rcall t s' = Some (r, s'')" using assms(1) by (auto simp: toplevel_exec_def split: if_splits)
  from child_rcall_run [OF this] assms(2,3) show ?thesis by (auto simp: child_run_def)
qed

lemma child_exec_run:
  assumes "child_run s d s'" "write_console s = Cb_runr_capture"
  shows "exec_parse api x s' = Some (ps, v, s'') \<Longrightarrow> child_run s d s''"
    and "exec_eval api x s' = Some (err, v, s'') \<Longrightarrow> child_run s d s''"
    and "exec_print api x s' = Some (ok, s'') \<Longrightarrow> child_run s d s''"
proof -
  show "child_run s d s''" if p: "exec_parse api x s' = Some (ps, v, s'')"
  proof -
    obtain r where "toplevel_exec api (R_ParseVector api x (r_heap s')) s' = Some (r, s'')"
      using p by (auto simp: exec_parse_def split: option.splits)
    then show ?thesis by (rule child_toplevel_run [OF _ assms])
  qed
  show "child_run s d s''" if p: "exec_eval api x s' = Some (err, v, s'')"
  proof -
    obtain r where "toplevel_exec api (R_tryEval api x (r_heap s')) s' = Some (r, s'')"
      using p by (auto simp: exec_eval_def split: option.splits)
    then show ?thesis by (rule child_toplevel_run [OF _ assms])
  qed
  show "child_run s d s''" if p: "exec_print api x s' = Some (ok, s'')"
  proof -
    obtain r where "toplevel_exec api (Rf_PrintValue api x (r_heap s')) s' = Some (r, s'')"
      using p by (auto simp: exec_print_def)
    then show ?thesis by (rule child_toplevel_run [OF _ assms])
  qed
qed

text \<open>One iteration of the loop, once the expression has been evaluated.\<close>

lemma sandbox_loop_step:
  assumes "exec_eval api (fst (alloc (Rf_lang2 api (withVisible_sym api) (VECTOR_ELT_fn api parsed i (r_heap s))) s))
      (protect (snd (alloc (Rf_lang2 api (withVisible_sym api) (VECTOR_ELT_fn api parsed i (r_heap s))) s)))
    = Some (err, result, s3)"
  defines "s4 \<equiv> protect s3"
  shows "sandbox_loop api parsed (i # is) s =
    (if err then unprotect 2 s4
     else if Rf_asLogical api (VECTOR_ELT_fn api (or_nil api result) 1 (r_heap s4)) (r_heap s4) \<noteq> 0 then do {
        (printed, s6) \<leftarrow> exec_print api (VECTOR_ELT_fn api (or_nil api result) 0 (r_heap s4)) (protect s4);
        (if \<not> printed then unprotect 3 s6
         else do { s7 \<leftarrow> unprotect 1 s6; s8 \<leftarrow> unprotect 2 s7; sandbox_loop api parsed is s8 }) }
     else do { s5 \<leftarrow> unprotect 2 s4; sandbox_loop api parsed is s5 })"
  by (simp only: sandbox_loop.simps Let_def split_beta assms Option.bind.simps fst_conv snd_conv)

lemma sandbox_loop_run:
  assumes "sandbox_loop api parsed is s' = Some s''" "child_run s d s'" "write_console s = Cb_runr_capture"
  shows "child_run s d s''"
  using assms(1,2)
proof (induction "is" arbitrary: s')
  case Nil
  then show ?case by simp
next
  case (Cons i "is")
  let ?a = "alloc (Rf_lang2 api (withVisible_sym api) (VECTOR_ELT_fn api parsed i (r_heap s'))) s'"
  obtain err result s3 where ev: "exec_eval api (fst ?a) (protect (snd ?a)) = Some (err, result, s3)"
    using Cons.prems(1) by (auto simp: split_beta Let_def)
  have "child_run s (Suc d) s3"
    by (rule child_exec_run(2) [OF _ assms(3) ev]) (intro child_run_local Cons.prems)
  from child_run_local(3) [OF this] have s4: "child_run s (d + 2) (protect s3)" by simp
  note step = Cons.prems(1) [unfolded sandbox_loop_step [OF ev]]
  consider "err" | "\<not> err" "Rf_asLogical api (VECTOR_ELT_fn api (or_nil api result) 1 (r_heap (protect s3))) (r_heap (protect s3)) = 0"
    | "\<not> err" "Rf_asLogical api (VECTOR_ELT_fn api (or_nil api result) 1 (r_heap (protect s3))) (r_heap (protect s3)) \<noteq> 0" by blast
  then show ?case
  proof cases
    case 1
    with step child_run_unprotect [OF s4] show ?thesis by auto
  next
    case 2
    with step child_run_unprotect [OF s4] Cons.IH show ?thesis by auto
  next
    case 3
    let ?v = "VECTOR_ELT_fn api (or_nil api result) 0 (r_heap (protect s3))"
    from step 3 obtain printed s6 where pr: "exec_print api ?v (protect (protect s3)) = Some (printed, s6)" by auto
    have "child_run s (Suc (d + 2)) s6" by (rule child_exec_run(3) [OF child_run_local(3) [OF s4] assms(3) pr])
    then have s6: "child_run s (d + 3) s6" "child_run s (d + 2 + 1) s6" by (simp_all add: numeral_3_eq_3)
    show ?thesis
    proof (cases printed)
      case False
      with step 3 pr child_run_unprotect [OF s6(1)] show ?thesis by simp
    next
      case True
      with step 3 pr child_run_unprotect [OF s6(2)] child_run_unprotect [OF child_run_unprotect(2) [OF s6(2)]] Cons.IH
      show ?thesis by auto
    qed
  qed
qed

lemma eval_in_sandbox_run:
  assumes "eval_in_sandbox api code s' = Some s''" "child_run s d s'" "write_console s = Cb_runr_capture"
  shows "child_run s d s''"
proof -
  let ?a = "alloc (Rf_mkString api code) (s'\<lparr>R_interrupts_pending := Some 0\<rparr>)"
  obtain ps result s4 where pa: "exec_parse api (fst ?a) (protect (snd ?a)) = Some (ps, result, s4)"
    using assms(1) by (auto simp: eval_in_sandbox_def split_beta Let_def)
  have "child_run s (Suc d) s4"
    by (rule child_exec_run(1) [OF _ assms(3) pa]) (intro child_run_local assms(2))
  from child_run_local(3) [OF this] have s5: "child_run s (d + 2) (protect s4)" by simp
  show ?thesis
  proof (cases "ps = PARSE_OK")
    case False
    then obtain s6 where s6: "write_pipe (bytes ''Parse error'' @ [10]) (protect s4) = Some s6" "unprotect 2 s6 = Some s''"
      using assms(1) pa by (auto simp: eval_in_sandbox_def split_beta Let_def simp del: bytes_simps)
    from child_run_unprotect [OF write_pipe_run [OF s6(1) s5]] s6(2) show ?thesis by auto
  next
    case True
    then obtain s6 where lp: "sandbox_loop api (or_nil api result)
        [0..<nat (Rf_length_fn api (or_nil api result) (r_heap (protect s4)))] (protect s4) = Some s6" "unprotect 2 s6 = Some s''"
      using assms(1) pa by (auto simp: eval_in_sandbox_def split_beta Let_def)
    from child_run_unprotect [OF sandbox_loop_run [OF lp(1) s5 assms(3)]] lp(2) show ?thesis by auto
  qed
qed

lemma child_string_loop_run:
  assumes "eval_string_loop api parsed is r s' = Some (v, s'')" "child_run s d s'" "write_console s = Cb_runr_capture"
  shows "child_run s d s''"
  using assms(1,2)
proof (induction "is" arbitrary: r s')
  case Nil
  then show ?case by simp
next
  case (Cons i "is")
  then obtain err w s1 where e: "exec_eval api (VECTOR_ELT_fn api parsed i (r_heap s')) s' = Some (err, w, s1)"
    "(if err then Some (None, s1) else eval_string_loop api parsed is w s1) = Some (v, s'')" by auto
  from child_exec_run(2) [OF Cons.prems(2) assms(3) e(1)] e(2) Cons.IH show ?case by (cases err) auto
qed

lemma child_string_run:
  assumes "eval_for_string api code s' = Some (v, s'')" "child_run s d s'" "write_console s = Cb_runr_capture"
  shows "child_run s d s''"
proof -
  let ?a = "alloc (Rf_mkString api code) s'"
  obtain ps result s3 where pa: "exec_parse api (fst ?a) (protect (snd ?a)) = Some (ps, result, s3)"
    using assms(1) by (auto simp: eval_for_string_def split_beta Let_def)
  have "child_run s (Suc d) s3"
    by (rule child_exec_run(1) [OF _ assms(3) pa]) (intro child_run_local assms(2))
  from child_run_local(3) [OF this] have s4: "child_run s (d + 2) (protect s3)" by simp
  show ?thesis
  proof (cases "ps = PARSE_OK")
    case False
    with assms(1) pa child_run_unprotect [OF s4] show ?thesis by (auto simp: eval_for_string_def split_beta Let_def)
  next
    case True
    then obtain r s5 where lp: "eval_string_loop api (or_nil api result)
        [0..<nat (Rf_length_fn api (or_nil api result) (r_heap (protect s3)))] (Some (R_NilValue api)) (protect s3) = Some (r, s5)"
      using assms(1) pa by (auto simp: eval_for_string_def split_beta Let_def)
    have s5: "child_run s (d + 2) s5" by (rule child_string_loop_run [OF lp s4 assms(3)])
    show ?thesis
    proof (cases r)
      case None
      with assms(1) pa True lp child_run_unprotect [OF s5] show ?thesis by (auto simp: eval_for_string_def split_beta Let_def)
    next
      case (Some p)
      then obtain w where w: "p = Some w"
        using assms(1) pa True lp by (auto simp: eval_for_string_def split_beta Let_def)
      let ?s8 = "protect (snd (alloc (Rf_asChar api w) (protect s5)))"
      have "child_run s (Suc (Suc (d + 2))) ?s8" by (intro child_run_local s5)
      then have s8: "child_run s (d + 4) ?s8" by (simp add: eval_nat_numeral)
      from assms(1) pa True lp Some w child_run_unprotect [OF s8] show ?thesis
        by (auto simp: eval_for_string_def split_beta Let_def)
    qed
  qed
qed

lemma child_evaluate_run:
  assumes "child_evaluate api fd code s = Some s'" "live s"
  shows "child_run (s\<lparr>g_runr_pipe_fd := fd, write_console := Cb_runr_capture\<rparr>) (protect_depth s) s'"
proof -
  let ?s = "s\<lparr>g_runr_pipe_fd := fd, write_console := Cb_runr_capture\<rparr>"
  have "live ?s" using assms(2) by (simp add: live_def)
  then have c: "child_run ?s (protect_depth s) ?s" using child_run_refl [of ?s] by simp
  obtain v s2 where s2: "eval_for_string api vsize_code ?s = Some (v, s2)" "eval_in_sandbox api code s2 = Some s'"
    using assms(1) by (auto simp: child_evaluate_def Let_def)
  show ?thesis
    by (rule eval_in_sandbox_run [OF s2(2) child_string_run [OF s2(1) c]]) simp_all
qed

end
