(* ===== verification/Worker.thy ===== *)
theory Worker
  imports Run_R_Laws
begin

section \<open>Startup, the worker thread and shutdown\<close>

text \<open>
  \<open>c_ffi/load_r.c\<close>: \<open>load_libr\<close>, \<open>load_symbols\<close>, \<open>init_r\<close>, \<open>r_thread_func\<close>,
  \<open>rffi_start\<close>, \<open>rffi_shutdown\<close>, and the OCaml stubs over them. The dynamic linker, the
  threads library and the clock are arguments.
\<close>

subsection \<open>Loading R\<close>

text \<open>
  What the dynamic linker and the threads library answer during startup, and what R itself does.
  R's own variables, its symbol table and its routine table are part of its heap: a store through
  a pointer that \<open>load_symbols\<close> found is \<open>write_R_variable\<close>. \<open>Rf_initialize_R\<close> sees the
  environment's \<open>R_HOME\<close> and the arguments; \<open>setup_Rmainloop\<close> runs the profiles.
\<close>

record 'h boot =
  dlopen :: "cstring \<Rightarrow> bool"
  dlsym :: "string \<Rightarrow> bool"
  write_R_variable :: "string \<Rightarrow> int \<Rightarrow> 'h \<Rightarrow> 'h"
  initialize_R :: "cstring \<Rightarrow> string list \<Rightarrow> 'h \<Rightarrow> 'h"
  setup_Rmainloop :: "'h \<Rightarrow> (unit, 'h) rcall"
  install_symbol :: "string \<Rightarrow> 'h \<Rightarrow> 'h"
  registerRoutines :: "(string \<times> nat) list \<Rightarrow> 'h \<Rightarrow> 'h"
  ring_block :: "nat \<Rightarrow> byte list option"
  mutex_init_rc :: int
  setstacksize_rc :: int
  thread_starts :: bool

text \<open>The globals before anything has run: as C initialises them.\<close>

definition program_start :: "'h \<Rightarrow> ui_action list list \<Rightarrow> 'h bridge" where
  "program_start h us = \<lparr>
     g_rb = \<lparr>rbuf = None, rcap = 0, rhead = 0, rtail = 0, rused = 0, rdropped_messages = 0, rdropped_bytes = 0, rlock = Mutex_none\<rparr>,
     passthrough_gate = False, readline_gate = False, readline_input_buf = None, pending_cmd = None,
     pending_completion_line = None, pending_completion_pos = 0, pending_column_object = None,
     shutdown_flag = False, pending_runr = None, runr_result = None, runr_done = False,
     R_interrupts_pending = None, write_console = Cb_none, g_runr_pipe_fd = -1, runr_pipe = [], pipe_answers = [],
     init_output_buf = None, init_output_len = 0, init_output_cap = 0,
     protect_depth = 0, r_heap = h, pushed = [], frontend_log = [], ui = us\<rparr>"

text \<open>The library's name on Linux; the path is cut to its buffer of 1024 bytes.\<close>

definition LIBR_BASENAME :: string where "LIBR_BASENAME = ''libR.so''"

definition libr_path :: "cstring \<Rightarrow> cstring" where
  "libr_path r_home = snd (snprintf 1024 (r_home @ bytes (''/lib/'' @ LIBR_BASENAME)))"

definition load_libr :: "'h boot \<Rightarrow> cstring \<Rightarrow> int" where
  "load_libr bt r_home = (if dlopen bt (libr_path r_home) then 0 else -1)"

definition required_symbols :: "string list" where
  "required_symbols = [
     ''Rf_initialize_R'', ''setup_Rmainloop'',
     ''R_ParseVector'', ''R_tryEval'', ''Rf_mkString'',
     ''Rf_protect'', ''Rf_unprotect'',
     ''VECTOR_ELT'', ''Rf_length'',
     ''Rf_PrintValue'',
     ''Rf_install'', ''Rf_lang1'', ''Rf_lang2'', ''Rf_asLogical'',
     ''Rf_asChar'', ''R_CHAR'',
     ''Rf_defineVar'', ''Rf_findVar'',
     ''R_GlobalEnv'', ''R_NilValue'', ''R_UnboundValue'', ''R_SignalHandlers'', ''R_interrupts_pending'',
     ''R_Interactive'', ''R_CStackLimit'',
     ''ptr_R_ReadConsole'', ''ptr_R_WriteConsole'', ''ptr_R_WriteConsoleEx'', ''ptr_R_FlushConsole'',
     ''ptr_R_ShowMessage'', ''ptr_R_Suicide'', ''R_Consolefile'', ''R_Outputfile'',
     ''R_getEmbeddingDllInfo'', ''R_registerRoutines'']"

definition optional_symbols :: "string list" where
  "optional_symbols = [''R_ToplevelExec'', ''R_ProcessEvents'', ''R_checkActivity'', ''R_runHandlers'', ''R_InputHandlers'']"

text \<open>The chain of \<open>LOAD_SYM\<close>: it stops at the first symbol that is missing. The result is
  the return code and the symbols whose pointers are set.\<close>

fun load_required :: "(string \<Rightarrow> bool) \<Rightarrow> string list \<Rightarrow> int \<times> string list" where
  "load_required has [] = (0, [])"
| "load_required has (n # ns) =
     (if has n then (let (rc, got) = load_required has ns in (rc, n # got)) else (-1, []))"

definition load_symbols :: "'h boot \<Rightarrow> int \<times> string list" where
  "load_symbols bt =
     (let (rc, got) = load_required (dlsym bt) required_symbols in
      if rc \<noteq> 0 then (-1, got) else (0, got @ filter (dlsym bt) optional_symbols))"

text \<open>
  \<open>init_r\<close>. Once the symbols are loaded, \<open>R_interrupts_pending_ptr\<close> points to R's variable. The
  console callback is the capturing one exactly while \<open>setup_Rmainloop\<close> runs; the other callbacks
  are those that the nodes of an \<open>rcall\<close> name. A jump out of \<open>setup_Rmainloop\<close> has no target,
  which is undefined.
\<close>

definition call_methods :: "(string \<times> nat) list" where
  "call_methods = [(''raoui_enter_passthrough'', 0), (''raoui_exit_passthrough'', 0), (''raoui_emit_image'', 5)]"

definition init_r :: "'h boot \<Rightarrow> cstring \<Rightarrow> 'h bridge \<Rightarrow> (int \<times> 'h bridge) option" where
  "init_r bt r_home s =
     (if load_libr bt r_home \<noteq> 0 then Some (-1, s)
      else
        (let (rc, got) = load_symbols bt;
             s1 = (if ''R_interrupts_pending'' \<in> set got then s\<lparr>R_interrupts_pending := Some 0\<rparr> else s) in
         if rc \<noteq> 0 then Some (-1, s1)
         else do {
           let h1 = write_R_variable bt ''R_SignalHandlers'' 0 (r_heap s1);
           let h2 = initialize_R bt r_home [''raoui'', ''--quiet'', ''--no-save''] h1;
           let h3 = write_R_variable bt ''R_Interactive'' 1 h2;
           let h4 = write_R_variable bt ''R_CStackLimit'' (2 ^ 64 - 1) h3;
           let s2 = s1\<lparr>r_heap := h4, write_console := Cb_init_capture\<rparr>;
           (r, s3) \<leftarrow> run_rcall (setup_Rmainloop bt (r_heap s2)) s2;
           _ \<leftarrow> r;
           let s4 = s3\<lparr>write_console := Cb_write_console_ex\<rparr>;
           let h5 = install_symbol bt ''raoui_after_top_level'' (install_symbol bt ''withVisible'' (r_heap s4));
           Some (0, s4\<lparr>r_heap := registerRoutines bt call_methods h5\<rparr>)
         }))"

text \<open>\<open>rffi_start\<close>: the ring, the thread with its stack, and the wait for \<open>init_done\<close>. If the
  thread does not start, \<open>init_done\<close> is never set and the wait never ends.\<close>

definition rffi_start :: "'h boot \<Rightarrow> cstring \<Rightarrow> 'h bridge \<Rightarrow> (int \<times> 'h bridge) option" where
  "rffi_start bt r_home s =
     (case rb_init (ring_block bt) (mutex_init_rc bt) (Some (g_rb s)) (1024 * 1024) of
        (rc, p) \<Rightarrow> do {
          rb \<leftarrow> p;
          let s1 = s\<lparr>g_rb := rb\<rparr>;
          (if rc \<noteq> 0 then Some (-1, s1)
           else if setstacksize_rc bt \<noteq> 0 then Some (-1, s1)
           else if \<not> thread_starts bt then None
           else init_r bt r_home s1)
        })"

definition caml_rffi_init :: "'h boot \<Rightarrow> byte list \<Rightarrow> 'h bridge \<Rightarrow> (int \<times> 'h bridge) option" where
  "caml_rffi_init bt v_r_home s = rffi_start bt (until_nul v_r_home) s"

subsection \<open>One round of the worker\<close>

text \<open>The deadline of the timed wait, 100 ms after the time of day.\<close>

definition wait_deadline :: "int \<Rightarrow> int \<Rightarrow> int \<times> int" where
  "wait_deadline tv_sec tv_usec =
     (let nsec = tv_usec * 1000 + 100000000 in
      if 1000000000 \<le> nsec then (tv_sec + 1, nsec - 1000000000) else (tv_sec, nsec))"

definition nothing_pending :: "'h bridge \<Rightarrow> bool" where
  "nothing_pending s \<longleftrightarrow> pending_cmd s = None \<and> pending_completion_line s = None \<and>
     pending_column_object s = None \<and> pending_runr s = None"

text \<open>The four kinds of work. Each starts with the mutex held; the other threads run again once it
  is released.\<close>

definition serve_command :: "('s, 'h) r_api \<Rightarrow> cstring \<Rightarrow> 'h bridge \<Rightarrow> 'h bridge option" where
  "serve_command api code s = do {
     let s1 = s\<lparr>pending_cmd := None, pending_completion_line := None, pending_column_object := None\<rparr>;
     s2 \<leftarrow> interfere s1;
     s3 \<leftarrow> rffi_rb_reset s2;
     (_, s4) \<leftarrow> eval_code api code s3;
     Some s4
   }"

definition serve_runr :: "('s, 'h) r_api \<Rightarrow> os_answers \<Rightarrow> 'h bridge \<Rightarrow> 'h bridge option" where
  "serve_runr api os s = do {
     let s1 = s\<lparr>pending_runr := None\<rparr>;
     (b, _, s2) \<leftarrow> run_r_on_worker api os s1;
     s3 \<leftarrow> interfere s2;
     out \<leftarrow> c_str b;
     Some (s3\<lparr>runr_result := Some out, runr_done := True\<rparr>)
   }"

definition serve_completion :: "('s, 'h) r_api \<Rightarrow> cstring \<Rightarrow> 'h bridge \<Rightarrow> 'h bridge option" where
  "serve_completion api line s = do {
     let pos = pending_completion_pos s;
     let s1 = s\<lparr>pending_completion_line := None, pending_column_object := None\<rparr>;
     run_completions api line pos s1
   }"

definition serve_columns :: "('s, 'h) r_api \<Rightarrow> cstring \<Rightarrow> 'h bridge \<Rightarrow> 'h bridge option" where
  "serve_columns api name s = run_column_completions api name (s\<lparr>pending_column_object := None\<rparr>)"

text \<open>The order in which the slots are looked at. \<open>answers\<close> gives what the operating system
  answers to a sandboxed evaluation of a piece of code.\<close>

definition serve :: "('s, 'h) r_api \<Rightarrow> (cstring \<Rightarrow> os_answers) \<Rightarrow> 'h bridge \<Rightarrow> 'h bridge option" where
  "serve api answers s =
     (case pending_cmd s of
        Some code \<Rightarrow> serve_command api code s
      | None \<Rightarrow>
          (case pending_runr s of
             Some code \<Rightarrow> serve_runr api (answers code) s
           | None \<Rightarrow>
               (case pending_completion_line s of
                  Some line \<Rightarrow> serve_completion api line s
                | None \<Rightarrow>
                    (case pending_column_object s of
                       Some name \<Rightarrow> serve_columns api name s
                     | None \<Rightarrow> Some s))))"

text \<open>One iteration of the worker's loop: the timed wait, if nothing is pending, then one piece of
  work, then R's events.\<close>

definition worker_round :: "('s, 'h) r_api \<Rightarrow> (cstring \<Rightarrow> os_answers) \<Rightarrow> 'h bridge \<Rightarrow> 'h bridge option" where
  "worker_round api answers s = do {
     s1 \<leftarrow> interfere s;
     s2 \<leftarrow> (if nothing_pending s1 \<and> \<not> shutdown_flag s1 then interfere s1 else Some s1);
     s3 \<leftarrow> serve api answers s2;
     process_events api s3
   }"

text \<open>The loop, as a step relation: it goes on while \<open>shutdown_flag\<close> is not set.\<close>

inductive worker_steps :: "('s, 'h) r_api \<Rightarrow> (cstring \<Rightarrow> os_answers) \<Rightarrow> 'h bridge \<Rightarrow> 'h bridge \<Rightarrow> bool"
  for api answers where
  start: "worker_steps api answers s s"
| round: "worker_steps api answers s s' \<Longrightarrow> \<not> shutdown_flag s' \<Longrightarrow> worker_round api answers s' = Some s'' \<Longrightarrow>
    worker_steps api answers s s''"

inductive_cases worker_stepsE: "worker_steps api answers s s'"

subsection \<open>Sandboxed evaluation for the caller, and shutdown\<close>

text \<open>
  \<open>rffi_run_r_sandboxed\<close> from the caller's side: it posts the code, and the worker goes on with
  its rounds until \<open>runr_done\<close> is set. A worker that has left its loop does no more rounds, so
  the wait has no end then. \<open>runr_call_mutex\<close> keeps other calls out meanwhile.
\<close>

partial_function (option) runr_wait :: "('s, 'h) r_api \<Rightarrow> (cstring \<Rightarrow> os_answers) \<Rightarrow> 'h bridge \<Rightarrow> 'h bridge option" where
  "runr_wait api answers s =
     (if runr_done s then Some s
      else if shutdown_flag s then None
      else Option.bind (worker_round api answers s) (runr_wait api answers))"

definition rffi_run_r_sandboxed :: "('s, 'h) r_api \<Rightarrow> (cstring \<Rightarrow> os_answers) \<Rightarrow> cstring \<Rightarrow> 'h bridge \<Rightarrow>
    (cstring ptr \<times> 'h bridge) option" where
  "rffi_run_r_sandboxed api answers code s = do {
     s1 \<leftarrow> runr_wait api answers (runr_post code s);
     runr_collect s1
   }"

definition caml_rffi_run_r_sandboxed :: "('s, 'h) r_api \<Rightarrow> (cstring \<Rightarrow> os_answers) \<Rightarrow> byte list \<Rightarrow> 'h bridge \<Rightarrow>
    (byte list \<times> 'h bridge) option" where
  "caml_rffi_run_r_sandboxed api answers v_code s = do {
     (out, s1) \<leftarrow> rffi_run_r_sandboxed api answers (until_nul v_code) s;
     Some (case out of None \<Rightarrow> [] | Some x \<Rightarrow> x, s1)
   }"

text \<open>\<open>rffi_shutdown\<close>: after the flag is set the worker finishes its round, if it is in one
  (\<open>busy\<close>), and leaves its loop; then the ring goes away. The handle of the library, which is closed
  last, is not part of the state.\<close>

definition rffi_shutdown :: "('s, 'h) r_api \<Rightarrow> (cstring \<Rightarrow> os_answers) \<Rightarrow> bool \<Rightarrow> 'h bridge \<Rightarrow> 'h bridge option" where
  "rffi_shutdown api answers busy s = do {
     let s1 = s\<lparr>shutdown_flag := True\<rparr>;
     s2 \<leftarrow> (if busy then worker_round api answers s1 else Some s1);
     p \<leftarrow> rb_deinit (Some (g_rb s2));
     rb \<leftarrow> p;
     Some (s2\<lparr>g_rb := rb\<rparr>)
   }"

definition caml_rffi_shutdown :: "('s, 'h) r_api \<Rightarrow> (cstring \<Rightarrow> os_answers) \<Rightarrow> bool \<Rightarrow> 'h bridge \<Rightarrow> 'h bridge option" where
  "caml_rffi_shutdown api answers busy s = rffi_shutdown api answers busy s"

end
