(* ===== verification/Worker_Laws.thy ===== *)
theory Worker_Laws
  imports Worker
begin

section \<open>What the worker thread guarantees\<close>

text \<open>
  The worker's invariant through any number of rounds, and what a round does to the requests when
  no new ones arrive during it.
\<close>

subsection \<open>Requests\<close>

text \<open>The request slots, and the actions of the frontend that leave them alone.\<close>

record slots =
  sl_cmd :: "cstring ptr"
  sl_line :: "cstring ptr"
  sl_pos :: int
  sl_object :: "cstring ptr"
  sl_runr :: "cstring ptr"
  sl_result :: "cstring ptr"
  sl_done :: bool
  sl_shutdown :: bool

definition requests :: "'h bridge \<Rightarrow> slots" where
  "requests s = \<lparr>sl_cmd = pending_cmd s, sl_line = pending_completion_line s, sl_pos = pending_completion_pos s,
     sl_object = pending_column_object s, sl_runr = pending_runr s, sl_result = runr_result s, sl_done = runr_done s,
     sl_shutdown = shutdown_flag s\<rparr>"

fun calm_action :: "ui_action \<Rightarrow> bool" where
  "calm_action (Ui_submit _) = False"
| "calm_action (Ui_request_completions _ _) = False"
| "calm_action (Ui_request_columns _) = False"
| "calm_action (Ui_post_runr _) = False"
| "calm_action Ui_set_shutdown = False"
| "calm_action _ = True"

definition calm :: "'h bridge \<Rightarrow> bool" where
  "calm s \<longleftrightarrow> (\<forall>b \<in> set (ui s). \<forall>a \<in> set b. calm_action a)"

text \<open>\<open>settled q s\<close>: the slots hold \<open>q\<close>, and no request is on its way.\<close>

definition settled :: "slots \<Rightarrow> 'h bridge \<Rightarrow> bool" where
  "settled q s \<longleftrightarrow> calm s \<and> requests s = q"

lemma ui_step_calm: "ui_step a s = Some s' \<Longrightarrow> calm_action a \<Longrightarrow> requests s' = requests s \<and> ui s' = ui s"
  by (cases a; auto simp: ui_defs requests_def split: option.splits if_splits)

lemma ui_steps_calm:
  "ui_steps as s = Some s' \<Longrightarrow> \<forall>a \<in> set as. calm_action a \<Longrightarrow> requests s' = requests s \<and> ui s' = ui s"
proof (induction as arbitrary: s)
  case Nil
  then show ?case by simp
next
  case (Cons a as)
  then obtain s1 where "ui_step a s = Some s1" "ui_steps as s1 = Some s'" by auto
  with Cons ui_step_calm [of a s s1] show ?case by auto
qed

lemma settled_interfere: "settled q s \<Longrightarrow> interfere s = Some s' \<Longrightarrow> settled q s'"
proof (cases "ui s")
  case Nil
  then show "settled q s \<Longrightarrow> interfere s = Some s' \<Longrightarrow> settled q s'" by (simp add: interfere_def)
next
  case (Cons b bs)
  assume i: "interfere s = Some s'" and c: "settled q s"
  then have "ui_steps b (s\<lparr>ui := bs\<rparr>) = Some s'" "\<forall>a \<in> set b. calm_action a"
    using Cons by (auto simp: interfere_def calm_def settled_def)
  from ui_steps_calm [OF this] c Cons show "settled q s'"
    by (auto simp: settled_def calm_def requests_def)
qed

lemma settled_push: "settled q s \<Longrightarrow> push kind data len s = Some s' \<Longrightarrow> settled q s'"
  by (auto simp: push_def settled_def calm_def requests_def)

subsection \<open>Frames\<close>

text \<open>
  An assertion about the bridge that interference, pushes, console output and the local updates
  of the callbacks keep is kept by whole calls into R.
\<close>

locale callback_frame =
  fixes I :: "'h bridge \<Rightarrow> bool"
  assumes heap: "I s \<Longrightarrow> I (s\<lparr>r_heap := h\<rparr>)"
    and gates: "I s \<Longrightarrow> I (s\<lparr>readline_gate := g\<rparr>)" "I s \<Longrightarrow> I (s\<lparr>passthrough_gate := g\<rparr>)"
    and input: "I s \<Longrightarrow> I (s\<lparr>readline_input_buf := None\<rparr>)"
    and others: "I s \<Longrightarrow> interfere s = Some s' \<Longrightarrow> I s'"
    and ring: "I s \<Longrightarrow> push kind data 0 s = Some s' \<Longrightarrow> I s'" "I s \<Longrightarrow> push_str kind x s = Some s' \<Longrightarrow> I s'"
    and console: "I s \<Longrightarrow> write_console_ex out otype s = Some s' \<Longrightarrow> I s'"
begin

lemma keep_await:
  assumes "I s" "await g s = Some s'"
  shows "I s'"
proof -
  have "I s \<longrightarrow> I s'"
  proof (rule await.raw_induct [where P = "\<lambda>g s s'. I s \<longrightarrow> I s'", OF _ assms(2)])
    fix f and g :: "'h bridge \<Rightarrow> bool" and s s'
    assume IH: "\<And>g s s'. f g s = Some s' \<Longrightarrow> I s \<longrightarrow> I s'"
      and eq: "(if g s then Some s else Option.bind (interfere s) (f g)) = Some s'"
    show "I s \<longrightarrow> I s'"
    proof (cases "g s")
      case True
      with eq show ?thesis by simp
    next
      case False
      with eq obtain s1 where "interfere s = Some s1" "f g s1 = Some s'" by auto
      with IH others show ?thesis by blast
    qed
  qed
  with assms(1) show ?thesis by blast
qed

lemma keep_callbacks:
  assumes "I s"
  shows "cb_show_message msg s = Some s' \<Longrightarrow> I s'" "raoui_exit_passthrough s = Some s' \<Longrightarrow> I s'"
    "raoui_enter_passthrough s = Some s' \<Longrightarrow> I s'" "raoui_emit_image a b c d e s = Some s' \<Longrightarrow> I s'"
    "cb_read_console prompt len s = Some (line, s') \<Longrightarrow> I s'"
proof -
  show "I s'" if "cb_show_message msg s = Some s'"
    using that assms others ring(2) unfolding cb_show_message_def bind_Some_iff by blast
  show "I s'" if "raoui_exit_passthrough s = Some s'"
    using that assms others ring(1) unfolding raoui_exit_passthrough_def bind_Some_iff by blast
  show "I s'" if r: "raoui_enter_passthrough s = Some s'"
  proof -
    obtain s1 s2 s3 s4 where st: "interfere s = Some s1" "push RB_MSG_PASSTHROUGH None 0 s1 = Some s2"
      "await passthrough_gate s2 = Some s3" "interfere s3 = Some s4" "s' = s4\<lparr>passthrough_gate := False\<rparr>"
      using r by (auto simp: raoui_enter_passthrough_def)
    have "I s4" by (rule others [OF keep_await [OF ring(1) [OF others [OF assms st(1)] st(2)] st(3)] st(4)])
    then show ?thesis unfolding st(5) by (rule gates(2))
  qed
  show "I s'" if r: "raoui_emit_image a b c d e s = Some s'"
  proof -
    have "s' = s \<or> (\<exists>s1 x. interfere s = Some s1 \<and> push_str RB_MSG_IMAGE x s1 = Some s')"
      using r by (auto simp: raoui_emit_image_def snprintf_def push_str_def split: option.splits if_splits)
    with assms others ring(2) show ?thesis by blast
  qed
  show "I s'" if r: "cb_read_console prompt len s = Some (line, s')"
  proof -
    obtain s1 s2 s3 s4 s6 where st: "interfere s = Some s1" "push_str RB_MSG_READLINE prompt s1 = Some s2"
      "await readline_gate s2 = Some s3" "interfere s3 = Some s4" "interfere (s4\<lparr>readline_gate := False\<rparr>) = Some s6"
      "s' = s6\<lparr>readline_input_buf := None\<rparr>"
      using r by (clarsimp simp: cb_read_console_def Let_def)
    have "I s4" by (rule others [OF keep_await [OF ring(2) [OF others [OF assms st(1)] st(2)] st(3)] st(4)])
    from others [OF gates(1) [OF this] st(5)] show ?thesis unfolding st(6) by (rule input)
  qed
qed

lemma keep_call: "I s \<Longrightarrow> run_rcall t s = Some (r, s') \<Longrightarrow> I s'"
proof (induction t arbitrary: s)
  case (R_write x otype k)
  then obtain s1 where s1: "write_console_ex x otype s = Some s1" "run_rcall k s1 = Some (r, s')" by auto
  show ?case by (rule R_write.IH [OF console [OF R_write.prems(1) s1(1)] s1(2)])
next
  case (R_message msg k)
  then obtain s1 where s1: "cb_show_message msg s = Some s1" "run_rcall k s1 = Some (r, s')" by auto
  show ?case by (rule R_message.IH [OF keep_callbacks(1) [OF R_message.prems(1) s1(1)] s1(2)])
next
  case (R_read prompt len k)
  then obtain line s1 where s1: "cb_read_console prompt len s = Some (line, s1)" "run_rcall (k line) s1 = Some (r, s')" by auto
  show ?case by (rule R_read.IH [OF rangeI keep_callbacks(5) [OF R_read.prems(1) s1(1)] s1(2)])
next
  case (R_enter_passthrough k)
  then obtain s1 where s1: "raoui_enter_passthrough s = Some s1" "run_rcall k s1 = Some (r, s')" by auto
  show ?case by (rule R_enter_passthrough.IH [OF keep_callbacks(3) [OF R_enter_passthrough.prems(1) s1(1)] s1(2)])
next
  case (R_exit_passthrough k)
  then obtain s1 where s1: "raoui_exit_passthrough s = Some s1" "run_rcall k s1 = Some (r, s')" by auto
  show ?case by (rule R_exit_passthrough.IH [OF keep_callbacks(2) [OF R_exit_passthrough.prems(1) s1(1)] s1(2)])
next
  case (R_emit_image a b c d e k)
  then obtain s1 where s1: "raoui_emit_image a b c d e s = Some s1" "run_rcall k s1 = Some (r, s')" by auto
  show ?case by (rule R_emit_image.IH [OF keep_callbacks(4) [OF R_emit_image.prems(1) s1(1)] s1(2)])
qed (auto simp: cb_flush_console_def heap)

end

text \<open>If the protection stack and the interrupt flag do not matter either, all that the worker
  evaluates keeps the assertion.\<close>

locale worker_frame = callback_frame I
  for I :: "'h bridge \<Rightarrow> bool" +
  fixes api :: "('s, 'h) r_api"
  assumes interrupts: "I s \<Longrightarrow> I (s\<lparr>R_interrupts_pending := Some v\<rparr>)"
    and depth: "I s \<Longrightarrow> I (s\<lparr>protect_depth := d\<rparr>)"
begin

lemma keep_protect: "I s \<Longrightarrow> I (protect s)"
  unfolding protect_def by (rule depth)

lemma keep_unprotect: "I s \<Longrightarrow> unprotect n s = Some s' \<Longrightarrow> I s'"
  by (auto simp: unprotect_def depth split: if_splits)

lemma keep_alloc: "I s \<Longrightarrow> I (snd (alloc f s))"
  by (simp add: alloc_def split_beta heap)

lemma keep_exec:
  assumes "I s"
  shows "exec_parse api x s = Some (ps, v, s') \<Longrightarrow> I s'" "exec_eval api x s = Some (err, v, s') \<Longrightarrow> I s'"
    "exec_print api x s = Some (ok, s') \<Longrightarrow> I s'"
proof -
  show "I s'" if p: "exec_parse api x s = Some (ps, v, s')"
  proof -
    obtain r where "run_rcall (R_ParseVector api x (r_heap s)) s = Some (r, s')"
      using p by (auto simp: exec_parse_def toplevel_exec_def split: option.splits if_splits)
    then show ?thesis by (rule keep_call [OF assms])
  qed
  show "I s'" if p: "exec_eval api x s = Some (err, v, s')"
  proof -
    obtain r where "run_rcall (R_tryEval api x (r_heap s)) s = Some (r, s')"
      using p by (auto simp: exec_eval_def toplevel_exec_def split: option.splits if_splits)
    then show ?thesis by (rule keep_call [OF assms])
  qed
  show "I s'" if p: "exec_print api x s = Some (ok, s')"
  proof -
    obtain r where "run_rcall (Rf_PrintValue api x (r_heap s)) s = Some (r, s')"
      using p by (auto simp: exec_print_def toplevel_exec_def split: if_splits)
    then show ?thesis by (rule keep_call [OF assms])
  qed
qed

lemma keep_hook:
  assumes "I s" "run_after_top_level_hook api s = Some s'"
  shows "I s'"
proof (cases "Rf_findVar api (raoui_after_top_level_sym api) (R_GlobalEnv api) (r_heap s) = R_UnboundValue api")
  case True
  with assms show ?thesis by (simp add: run_after_top_level_hook_def)
next
  case False
  let ?a = "alloc (Rf_lang1 api (raoui_after_top_level_sym api)) s"
  obtain err v s3 where e: "exec_eval api (fst ?a) (protect (snd ?a)) = Some (err, v, s3)" "unprotect 1 s3 = Some s'"
    using assms(2) False by (auto simp: run_after_top_level_hook_def split_beta)
  show ?thesis by (rule keep_unprotect [OF keep_exec(2) [OF keep_protect [OF keep_alloc [OF assms(1)]] e(1)] e(2)])
qed

lemma keep_error:
  assumes "I s" "Option.bind (unprotect n s) (\<lambda>s1. Option.bind (interfere s1) (\<lambda>s2. Option.bind (push RB_MSG_R_ERROR (Some []) 0 s2)
    (\<lambda>s3. Some (True, s3)))) = Some (e, s')"
  shows "I s'"
proof -
  obtain s1 s2 where "unprotect n s = Some s1" "interfere s1 = Some s2" "push RB_MSG_R_ERROR (Some []) 0 s2 = Some s'"
    using assms(2) by auto
  with keep_unprotect [OF assms(1)] others ring(1) show ?thesis by blast
qed

lemma keep_eval_loop:
  assumes "I s" "eval_loop api parsed is s = Some (e, s')"
  shows "I s'"
  using assms
proof (induction "is" arbitrary: s)
  case Nil
  then show ?case by simp
next
  case (Cons i "is")
  let ?a = "alloc (Rf_lang2 api (withVisible_sym api) (VECTOR_ELT_fn api parsed i (r_heap s))) s"
  obtain err result s3 where ev: "exec_eval api (fst ?a) (protect (snd ?a)) = Some (err, result, s3)"
    using Cons.prems(2) by (auto simp: split_beta Let_def)
  have s4: "I (protect s3)"
    by (rule keep_protect [OF keep_exec(2) [OF keep_protect [OF keep_alloc [OF Cons.prems(1)]] ev]])
  note step = Cons.prems(2) [unfolded eval_loop_step [OF ev]]
  have rest: "I s'" if "I s5" "run_after_top_level_hook api s5 = Some s6" "unprotect 2 s6 = Some s7"
    "eval_loop api parsed is s7 = Some (e, s')" for s5 s6 s7
    using that Cons.IH keep_hook keep_unprotect by blast
  consider "err" | "\<not> err" "Rf_asLogical api (VECTOR_ELT_fn api (or_nil api result) 1 (r_heap (protect s3))) (r_heap (protect s3)) = 0"
    | "\<not> err" "Rf_asLogical api (VECTOR_ELT_fn api (or_nil api result) 1 (r_heap (protect s3))) (r_heap (protect s3)) \<noteq> 0" by blast
  then show ?case
  proof cases
    case 1
    with step keep_error [OF s4] show ?thesis by simp
  next
    case 2
    with step rest [OF s4] show ?thesis by auto
  next
    case 3
    let ?v = "VECTOR_ELT_fn api (or_nil api result) 0 (r_heap (protect s3))"
    from step 3 obtain printed s6 where pr: "exec_print api ?v (protect (protect s3)) = Some (printed, s6)" by auto
    have s6: "I s6" by (rule keep_exec(3) [OF keep_protect [OF s4] pr])
    show ?thesis
    proof (cases printed)
      case True
      with step 3 pr obtain s7 s8 s9 where "unprotect 1 s6 = Some s7" "run_after_top_level_hook api s7 = Some s8"
        "unprotect 2 s8 = Some s9" "eval_loop api parsed is s9 = Some (e, s')" by auto
      with rest keep_unprotect [OF s6] show ?thesis by blast
    next
      case False
      with step 3 pr keep_error [OF s6] show ?thesis by simp
    qed
  qed
qed

lemma keep_eval_code:
  assumes "I s" "eval_code api code s = Some (rc, s')"
  shows "I s'"
proof -
  let ?a = "alloc (Rf_mkString api code) (s\<lparr>R_interrupts_pending := Some 0\<rparr>)"
  obtain ps result s4 where pa: "exec_parse api (fst ?a) (protect (snd ?a)) = Some (ps, result, s4)"
    using assms(2) by (auto simp: eval_code_def split_beta Let_def)
  have s5: "I (protect s4)"
    by (rule keep_protect [OF keep_exec(1) [OF keep_protect [OF keep_alloc [OF interrupts [OF assms(1)]]] pa]])
  show ?thesis
  proof (cases "ps = PARSE_OK")
    case False
    with assms(2) pa obtain s6 s7 s8 s9 where "interfere (protect s4) = Some s6"
      "push_str RB_MSG_R_ERROR (parse_error_text ps) s6 = Some s7" "interfere s7 = Some s8"
      "push RB_MSG_DONE None 0 s8 = Some s9" "unprotect 2 s9 = Some s'"
      by (auto simp: eval_code_def split_beta Let_def)
    with s5 show ?thesis by (metis ring(2) keep_unprotect others ring)
  next
    case True
    with assms(2) pa obtain e s6 s7 s8 where lp: "eval_loop api (or_nil api result)
        [0..<nat (Rf_length_fn api (or_nil api result) (r_heap (protect s4)))] (protect s4) = Some (e, s6)"
      "interfere s6 = Some s7" "push RB_MSG_DONE None 0 s7 = Some s8" "unprotect 2 s8 = Some s'"
      by (auto simp: eval_code_def split_beta Let_def)
    from keep_eval_loop [OF s5 lp(1)] lp(2-4) show ?thesis by (metis keep_unprotect others ring)
  qed
qed

lemma keep_string_loop: "I s \<Longrightarrow> eval_string_loop api parsed is r s = Some (v, s') \<Longrightarrow> I s'"
proof (induction "is" arbitrary: r s)
  case Nil
  then show ?case by simp
next
  case (Cons i "is")
  then obtain err w s1 where e: "exec_eval api (VECTOR_ELT_fn api parsed i (r_heap s)) s = Some (err, w, s1)"
    "(if err then Some (None, s1) else eval_string_loop api parsed is w s1) = Some (v, s')" by auto
  from keep_exec(2) [OF Cons.prems(1) e(1)] e(2) Cons.IH show ?case by (cases err) auto
qed

lemma keep_eval_for_string:
  assumes "I s" "eval_for_string api code s = Some (v, s')"
  shows "I s'"
proof -
  let ?a = "alloc (Rf_mkString api code) s"
  obtain ps result s3 where pa: "exec_parse api (fst ?a) (protect (snd ?a)) = Some (ps, result, s3)"
    using assms(2) by (auto simp: eval_for_string_def split_beta Let_def)
  have s4: "I (protect s3)"
    by (rule keep_protect [OF keep_exec(1) [OF keep_protect [OF keep_alloc [OF assms(1)]] pa]])
  show ?thesis
  proof (cases "ps = PARSE_OK")
    case False
    with assms(2) pa keep_unprotect [OF s4] show ?thesis by (auto simp: eval_for_string_def split_beta Let_def)
  next
    case True
    with assms(2) pa obtain r s5 where lp: "eval_string_loop api (or_nil api result)
        [0..<nat (Rf_length_fn api (or_nil api result) (r_heap (protect s3)))] (Some (R_NilValue api)) (protect s3) = Some (r, s5)"
      by (auto simp: eval_for_string_def split_beta Let_def)
    have s5: "I s5" by (rule keep_string_loop [OF s4 lp])
    have s8: "I (protect (snd (alloc f (protect s5))))" for f :: "'h \<Rightarrow> 's \<times> 'h" by (intro keep_protect keep_alloc s5)
    from assms(2) pa True lp keep_unprotect [OF s5] keep_unprotect [OF s8] show ?thesis
      by (auto simp: eval_for_string_def split_beta Let_def split: option.splits)
  qed
qed

lemma keep_completions:
  assumes "I s"
  shows "run_completions api line pos s = Some s' \<Longrightarrow> I s'" "run_column_completions api name s = Some s' \<Longrightarrow> I s'"
proof -
  have d: "I s1" if "define_string api n x s = Some s1" for n x s1
  proof (rule keep_unprotect)
    let ?s2 = "snd (alloc (Rf_mkString api x) (snd (alloc (Rf_install api n) s)))"
    let ?s4 = "(protect ?s2)\<lparr>r_heap := Rf_defineVar api (fst (alloc (Rf_install api n) s))
      (fst (alloc (Rf_mkString api x) (snd (alloc (Rf_install api n) s)))) (R_GlobalEnv api) (r_heap (protect ?s2))\<rparr>"
    show "I ?s4" by (intro heap keep_protect keep_alloc assms)
    show "unprotect 1 ?s4 = Some s1" using that by (simp add: define_string_def split_beta Let_def)
  qed
  have p: "I s3" if "I s2" "push_completions result s2 = Some s3" for result s2 s3
    using that by (auto simp: push_completions_def split: option.splits dest: others ring)
  show "I s'" if r: "run_completions api line pos s = Some s'"
  proof -
    obtain s1 result s2 where "define_string api (bytes ''.raoui_compl'') line s = Some s1"
      "eval_for_string api (snd (snprintf 512 (completion_code pos))) s1 = Some (result, s2)" "push_completions result s2 = Some s'"
      using r unfolding run_completions_def split_beta Let_def by (auto simp del: bytes_simps)
    with d p keep_eval_for_string show ?thesis by blast
  qed
  show "I s'" if r: "run_column_completions api name s = Some s'"
  proof -
    obtain s1 result s2 where "define_string api (bytes ''.raoui_column_object'') name s = Some s1"
      "eval_for_string api column_code s1 = Some (result, s2)" "push_completions result s2 = Some s'"
      using r unfolding run_column_completions_def by (auto simp del: bytes_simps)
    with d p keep_eval_for_string show ?thesis by blast
  qed
qed

lemma keep_events:
  assumes "I s" "process_events api s = Some s'"
  shows "I s'"
proof (cases "R_ToplevelExec_fn api")
  case False
  with assms show ?thesis by (simp add: process_events_def)
next
  case True
  then obtain r0 where inner: "process_events_inner api s = Some (r0, s')"
    using assms(2) by (auto simp: process_events_def)
  obtain r s1 where s1: "(case R_ProcessEvents_fn api of None \<Rightarrow> Some (Some (), s) | Some f \<Rightarrow> run_rcall (f (r_heap s)) s) = Some (r, s1)"
    using inner by (auto simp: process_events_inner_def)
  have "I s1" using s1 assms(1) keep_call by (auto split: option.splits)
  moreover have "s' = s1 \<or> (\<exists>t :: (unit, 'h) rcall. run_rcall t s1 = Some (r0, s'))"
    using inner s1 by (auto simp: process_events_inner_def split: option.splits if_splits bool.splits)
  ultimately show ?thesis using keep_call by blast
qed

lemma keep_run_r: "I s \<Longrightarrow> run_r_on_worker api os s = Some (b, k, s') \<Longrightarrow> I s'"
  by (auto simp: run_r_on_worker_def gather_runr_read_paths_def split: if_splits dest: keep_eval_for_string)

end

text \<open>To show that console output keeps an assertion it is enough to look at the ring and at the two
  buffers that capture output.\<close>

lemma write_console_exE:
  assumes "write_console_ex x otype s = Some s'"
  obtains s1 kind where "interfere s = Some s1" "push_str kind x s1 = Some s'"
  | b n c where "s' = s\<lparr>init_output_buf := b, init_output_len := n, init_output_cap := c\<rparr>"
  | y as where "s' = s\<lparr>runr_pipe := y, pipe_answers := as\<rparr>"
proof (cases "write_console s")
  case Cb_none
  with assms show thesis by (simp add: write_console_ex_def)
next
  case Cb_init_capture
  then have "cb_init_capture x otype s = Some s'" using assms by (simp add: write_console_ex_def)
  then have "s' = s\<lparr>init_output_buf := init_output_buf s', init_output_len := init_output_len s', init_output_cap := init_output_cap s'\<rparr>"
    by (auto simp: cb_init_capture_def Let_def split: if_splits)
  then show thesis by (rule that(2))
next
  case Cb_write_console_ex
  then show thesis using assms that(1) by (auto simp: write_console_ex_def cb_write_console_ex_def Let_def)
next
  case Cb_runr_capture
  then have "s' = s\<lparr>runr_pipe := runr_pipe s', pipe_answers := pipe_answers s'\<rparr>"
    using assms by (auto simp: write_console_ex_def cb_runr_capture_def pipe_write_def Let_def split: if_splits list.splits pipe_answer.splits)
  then show thesis by (rule that(3))
qed

text \<open>The requests are such a frame while no new ones arrive.\<close>

interpretation settled: worker_frame "settled q" api
  for q :: slots and api :: "('s, 'h) r_api"
proof unfold_locales
  fix s s' :: "'h bridge" and x otype kind data
  assume a: "settled q s"
  show "interfere s = Some s' \<Longrightarrow> settled q s'" by (rule settled_interfere [OF a])
  show "push kind data 0 s = Some s' \<Longrightarrow> settled q s'" by (rule settled_push [OF a])
  show "push_str kind x s = Some s' \<Longrightarrow> settled q s'" unfolding push_str_def by (rule settled_push [OF a])
  show "settled q s'" if w: "write_console_ex x otype s = Some s'"
  proof (rule write_console_exE [OF w])
    show "settled q s'" if i: "interfere s = Some s1" "push_str kind x s1 = Some s'" for s1 kind
      by (rule settled_push [OF settled_interfere [OF a i(1)] i(2) [unfolded push_str_def]])
  qed (use a in \<open>auto simp: settled_def calm_def requests_def\<close>)
qed (auto simp: settled_def calm_def requests_def)

text \<open>Once \<open>R_interrupts_pending_ptr\<close> is set it stays set, and the cursor position is a C
  \<open>int\<close>.\<close>

definition ready :: "'h bridge \<Rightarrow> bool" where
  "ready s \<longleftrightarrow> R_interrupts_pending s \<noteq> None \<and> - (2 ^ 31) \<le> pending_completion_pos s \<and> pending_completion_pos s < 2 ^ 31"

lemma ui_step_ready: "ui_step a s = Some s' \<Longrightarrow> ready s \<Longrightarrow> ready s'"
  using sint_ge [where 'a = 32] sint_lt [where 'a = 32]
  by (cases a; auto simp: ui_defs ready_def split: option.splits if_splits)

lemma ui_steps_ready: "ui_steps as s = Some s' \<Longrightarrow> ready s \<Longrightarrow> ready s'"
  by (induction as arbitrary: s) (auto dest: ui_step_ready)

lemma interfere_ready: "interfere s = Some s' \<Longrightarrow> ready s \<Longrightarrow> ready s'"
  using ui_steps_ready by (fastforce simp: interfere_def ready_def split: list.splits)

interpretation ready: worker_frame ready api
  for api :: "('s, 'h) r_api"
proof unfold_locales
  fix s s' :: "'h bridge" and x otype kind data
  assume a: "ready s"
  have p: "ready t'" if "ready t" "push kind data len t = Some t'" for t t' :: "'h bridge" and kind data len
    using that by (auto simp: push_def ready_def)
  have ps: "ready t'" if "ready t" "push_str kind x t = Some t'" for t t' :: "'h bridge" and kind x
    using that p unfolding push_str_def by blast
  show "interfere s = Some s' \<Longrightarrow> ready s'" by (rule interfere_ready [OF _ a])
  show "push kind data 0 s = Some s' \<Longrightarrow> ready s'" by (rule p [OF a])
  show "push_str kind x s = Some s' \<Longrightarrow> ready s'" by (rule ps [OF a])
  show "ready s'" if w: "write_console_ex x otype s = Some s'"
  proof (rule write_console_exE [OF w])
    show "ready s'" if i: "interfere s = Some s1" "push_str kind x s1 = Some s'" for s1 kind
      by (rule ps [OF interfere_ready [OF i(1) a] i(2)])
  qed (use a in \<open>auto simp: ready_def\<close>)
qed (auto simp: ready_def)

end
