(* ===== verification/Worker_Progress.thy ===== *)
theory Worker_Progress
  imports Worker_Laws
begin

section \<open>The worker's invariant and its progress\<close>

text \<open>
  What a worker that is at work keeps through a round, that each kind of work ends if R's calls
  do, and what a round does to the request slots.
\<close>

subsection \<open>The invariant\<close>

definition at_work :: "'h bridge \<Rightarrow> nat \<Rightarrow> bool" where
  "at_work s d \<longleftrightarrow> live s \<and> write_console s = Cb_write_console_ex \<and> protect_depth s = d"

lemma emits_at_work: "emits s ms d s' \<Longrightarrow> at_work s d \<Longrightarrow> at_work s' d"
  using emits_live emits_depth emits_console by (fastforce simp: at_work_def)

lemma at_work_emits: "at_work s d \<Longrightarrow> emits s [] d s"
  using emits_refl by (auto simp: at_work_def)

lemma interfere_at_work: "interfere s = Some s' \<Longrightarrow> at_work s d \<Longrightarrow> at_work s' d"
  by (metis at_work_emits emits_at_work emits_interfere option.inject)

text \<open>Only the ring, the log and the schedule matter for being at work.\<close>

lemma at_work_requests [simp]:
  "at_work (s\<lparr>pending_cmd := a\<rparr>) d = at_work s d"
  "at_work (s\<lparr>pending_completion_line := b\<rparr>) d = at_work s d"
  "at_work (s\<lparr>pending_column_object := b\<rparr>) d = at_work s d"
  "at_work (s\<lparr>pending_runr := a\<rparr>) d = at_work s d"
  "at_work (s\<lparr>runr_result := x\<rparr>) d = at_work s d"
  "at_work (s\<lparr>runr_done := y\<rparr>) d = at_work s d"
  by (simp_all add: at_work_def live_def)

lemma reset_at_work:
  assumes "at_work s d"
  obtains s' where "rffi_rb_reset s = Some s'" "at_work s' d" "rb_msgs (g_rb s') = []" "frontend_log s' = frontend_log s"
    "s' = s\<lparr>g_rb := g_rb s'\<rparr>"
proof -
  have "rb_ok (g_rb s)" using assms by (simp add: at_work_def live_def)
  then obtain rb where rb: "rb_reset (Some (g_rb s)) = Some (Some rb)" "rb_ok rb" "rb_msgs rb = []" "rcap rb = rcap (g_rb s)"
    by (rule rb_reset_ok)
  then show thesis using that [of "s\<lparr>g_rb := rb\<rparr>"] assms by (simp add: rffi_rb_reset_def at_work_def live_def)
qed

lemma serve_command_done:
  assumes "serve_command api code s = Some s'" "at_work s d"
  obtains s2 s3 ms rc where "interfere (s\<lparr>pending_cmd := None, pending_completion_line := None, pending_column_object := None\<rparr>) = Some s2"
    "rffi_rb_reset s2 = Some s3" "rb_msgs (g_rb s3) = []" "frontend_log s3 = frontend_log s2" "at_work s3 d" "eval_code api code s3 = Some (rc, s')"
    "emits s3 (ms @ [done_msg]) d s'" "last (stream s') = wire_msg done_msg"
proof -
  let ?s1 = "s\<lparr>pending_cmd := None, pending_completion_line := None, pending_column_object := None\<rparr>"
  obtain s2 s3 rc where st: "interfere ?s1 = Some s2" "rffi_rb_reset s2 = Some s3" "eval_code api code s3 = Some (rc, s')"
    using assms(1) by (auto simp: serve_command_def)
  have w2: "at_work s2 d" using interfere_at_work [OF st(1)] assms(2) by simp
  obtain s3' where s3': "rffi_rb_reset s2 = Some s3'" "at_work s3' d" "rb_msgs (g_rb s3') = []" "frontend_log s3' = frontend_log s2"
    by (rule reset_at_work [OF w2])
  then have s3: "s3' = s3" using st(2) by simp
  have "live s3" "write_console s3 = Cb_write_console_ex" "protect_depth s3 = d" using s3'(2) s3 by (auto simp: at_work_def)
  from eval_code_emits [OF st(3) this(1,2)] obtain ns err
    where e: "emits s3 (ns @ err @ [done_msg]) d s'" "last (stream s') = wire_msg done_msg" using \<open>protect_depth s3 = d\<close> by metis
  with that [OF st(1,2) _ _ _ st(3), of "ns @ err"] s3' s3 show thesis by simp
qed

lemma completions_at_work:
  assumes "at_work s d"
  shows "run_completions api line pos s = Some s' \<Longrightarrow> at_work s' d"
    "run_column_completions api name s = Some s' \<Longrightarrow> at_work s' d"
proof -
  have con: "write_console s = Cb_write_console_ex" using assms by (simp add: at_work_def)
  have key: "at_work s' d" if r: "define_string api n x s = Some s1" "eval_for_string api c s1 = Some (v, s2)"
    "push_completions v s2 = Some s'" for n x s1 c v s2
  proof -
    obtain s1' where "define_string api n x s = Some s1'" "emits s [] d s1'" by (rule define_string_emits [OF at_work_emits [OF assms]])
    with r(1) have e1: "emits s [] d s1" by simp
    obtain ns where e2: "emits s ([] @ ns) d s2" by (rule eval_for_string_emits [OF r(2) e1 con])
    obtain s'' z where "push_completions v s2 = Some s''" "emits s (([] @ ns) @ [Msg RB_MSG_COMPLETIONS 0 z]) d s''"
      by (rule push_completions_emits [OF e2])
    with r(3) show ?thesis using emits_at_work [OF _ assms] by auto
  qed
  show "at_work s' d" if r: "run_completions api line pos s = Some s'"
  proof -
    obtain s1 result s2 where "define_string api (bytes ''.raoui_compl'') line s = Some s1"
      "eval_for_string api (snd (snprintf 512 (completion_code pos))) s1 = Some (result, s2)" "push_completions result s2 = Some s'"
      using r unfolding run_completions_def split_beta Let_def by (auto simp del: bytes_simps)
    then show ?thesis by (rule key)
  qed
  show "at_work s' d" if r: "run_column_completions api name s = Some s'"
  proof -
    obtain s1 result s2 where "define_string api (bytes ''.raoui_column_object'') name s = Some s1"
      "eval_for_string api column_code s1 = Some (result, s2)" "push_completions result s2 = Some s'"
      using r unfolding run_column_completions_def by (auto simp del: bytes_simps)
    then show ?thesis by (rule key)
  qed
qed

lemma serve_runr_at_work:
  assumes "serve_runr api os s = Some s'" "at_work s d"
  shows "at_work s' d"
proof -
  obtain b k s2 s3 out where st: "run_r_on_worker api os (s\<lparr>pending_runr := None\<rparr>) = Some (b, k, s2)" "interfere s2 = Some s3"
    "s' = s3\<lparr>runr_result := Some out, runr_done := True\<rparr>" using assms(1) by (auto simp: serve_runr_def)
  have w: "at_work (s\<lparr>pending_runr := None\<rparr>) d" using assms(2) by simp
  obtain dyn where "gather_runr_read_paths api (s\<lparr>pending_runr := None\<rparr>) = Some (dyn, s2)"
    using st(1) by (auto simp: run_r_on_worker_def split: if_splits)
  then obtain ns where "emits (s\<lparr>pending_runr := None\<rparr>) ([] @ ns) d s2"
    unfolding gather_runr_read_paths_def
    by (rule eval_for_string_emits [OF _ at_work_emits [OF w]]) (use w in \<open>auto simp: at_work_def\<close>)
  from interfere_at_work [OF st(2) emits_at_work [OF this w]] st(3) show ?thesis by simp
qed

lemma serve_at_work:
  assumes "serve api answers s = Some s'" "at_work s d"
  shows "at_work s' d"
proof -
  have sc: "at_work s' d" if "serve_command api code s = Some s'" for code
    by (rule serve_command_done [OF that assms(2)]) (rule emits_at_work)
  show ?thesis
    using assms
    by (auto simp: serve_def serve_completion_def serve_columns_def split: option.splits
        intro: sc serve_runr_at_work [OF _ assms(2)] completions_at_work [rotated])
qed

lemma process_events_at_work:
  assumes "process_events api s = Some s'" "at_work s d"
  shows "at_work s' d"
proof -
  obtain ns where "emits s ([] @ ns) d s'"
    by (rule process_events_emits [OF assms(1) at_work_emits [OF assms(2)]]) (use assms(2) in \<open>auto simp: at_work_def\<close>)
  from emits_at_work [OF this assms(2)] show ?thesis .
qed

text \<open>The three parts of a round.\<close>

lemma worker_roundE:
  assumes "worker_round api answers s = Some s'"
  obtains s1 s2 s3 where "interfere s = Some s1" "s2 = s1 \<or> interfere s1 = Some s2"
    "serve api answers s2 = Some s3" "process_events api s3 = Some s'"
  using assms by (auto simp: worker_round_def split: if_splits)

lemma worker_round_at_work:
  assumes "worker_round api answers s = Some s'" "at_work s d"
  shows "at_work s' d"
proof (rule worker_roundE [OF assms(1)])
  fix s1 s2 s3
  assume st: "interfere s = Some s1" "s2 = s1 \<or> interfere s1 = Some s2" "serve api answers s2 = Some s3" "process_events api s3 = Some s'"
  have "at_work s2 d" using interfere_at_work [OF st(1) assms(2)] st(2) interfere_at_work by auto
  from process_events_at_work [OF st(4) serve_at_work [OF st(3) this]] show ?thesis .
qed

subsection \<open>Progress\<close>

text \<open>A runtime whose event handlers ask for no input either.\<close>

definition well_behaved :: "('s, 'h) r_api \<Rightarrow> bool" where
  "well_behaved api \<longleftrightarrow> cooperative api \<and> (\<forall>f h. R_ProcessEvents_fn api = Some f \<longrightarrow> quiet (f h)) \<and>
     (\<forall>f h. R_runHandlers_fn api = Some f \<longrightarrow> quiet (f h))"

lemma run_rcall_at_work:
  assumes "quiet t" "at_work s d"
  obtains r s' where "run_rcall t s = Some (r, s')" "at_work s' d"
proof -
  have w: "live s" "write_console s = Cb_write_console_ex" using assms(2) by (auto simp: at_work_def)
  obtain r s' where r: "run_rcall t s = Some (r, s')" using run_rcall_returns [OF assms(1) w] by auto
  obtain ns where "emits s ([] @ ns) d s'" by (rule run_rcall_emits [OF at_work_emits [OF assms(2)] w(2) r])
  from that [OF r emits_at_work [OF this assms(2)]] show thesis .
qed

lemma process_events_returns:
  assumes "well_behaved api" "at_work s d"
  obtains s' where "process_events api s = Some s'"
proof -
  have ev: "quiet (f h)" if "R_ProcessEvents_fn api = Some f" for f h using assms(1) that by (simp add: well_behaved_def)
  have ha: "quiet (f h)" if "R_runHandlers_fn api = Some f" for f h using assms(1) that by (simp add: well_behaved_def)
  obtain r s1 where s1: "(case R_ProcessEvents_fn api of None \<Rightarrow> Some (Some (), s) | Some f \<Rightarrow> run_rcall (f (r_heap s)) s) = Some (r, s1)"
    "at_work s1 d"
  proof (cases "R_ProcessEvents_fn api")
    case None
    with that assms(2) show thesis by simp
  next
    case (Some f)
    with that run_rcall_at_work [OF ev [OF Some] assms(2)] show thesis by (metis option.simps(5))
  qed
  have "process_events_inner api s \<noteq> None"
  proof (cases "r = None \<or> R_checkActivity_fn api = None \<or> R_runHandlers_fn api = None")
    case True
    with s1(1) show ?thesis by (auto simp: process_events_inner_def split: option.split)
  next
    case False
    then obtain u check handlers where f: "r = Some u" "R_checkActivity_fn api = Some check" "R_runHandlers_fn api = Some handlers" by auto
    obtain r2 s2 where "run_rcall (handlers (r_heap s1)) s1 = Some (r2, s2)" by (rule run_rcall_at_work [OF ha [OF f(3)] s1(2)])
    with s1(1) f show ?thesis by (simp add: process_events_inner_def split: bool.split)
  qed
  with that show thesis by (cases "R_ToplevelExec_fn api") (auto simp: process_events_def)
qed

lemma interfere_returns:
  assumes "at_work s d"
  obtains s' where "interfere s = Some s'" "at_work s' d"
proof -
  obtain s' where i: "interfere s = Some s'"
    using interfere_extends [of s] assms unfolding at_work_def by metis
  from that [OF i interfere_at_work [OF i assms]] show thesis .
qed

lemma at_workD:
  assumes "at_work s d"
  shows "live s" "write_console s = Cb_write_console_ex" "protect_depth s = d"
  using assms by (auto simp: at_work_def)

lemma ready_requests [simp]:
  "ready (s\<lparr>pending_cmd := a\<rparr>) = ready s" "ready (s\<lparr>pending_completion_line := a\<rparr>) = ready s"
  "ready (s\<lparr>pending_column_object := a\<rparr>) = ready s" "ready (s\<lparr>pending_runr := a\<rparr>) = ready s"
  "ready (s\<lparr>runr_result := a\<rparr>) = ready s" "ready (s\<lparr>runr_done := b\<rparr>) = ready s" "ready (s\<lparr>g_rb := rb\<rparr>) = ready s"
  by (simp_all add: ready_def)

lemma serve_command_returns:
  assumes "well_behaved api" "at_work s d" "ready s"
  shows "\<exists>s'. serve_command api code s = Some s'"
proof -
  let ?s1 = "s\<lparr>pending_cmd := None, pending_completion_line := None, pending_column_object := None\<rparr>"
  have w1: "at_work ?s1 d" using assms(2) by simp
  obtain s2 where s2: "interfere ?s1 = Some s2" "at_work s2 d" by (rule interfere_returns [OF w1])
  obtain s3 where s3: "rffi_rb_reset s2 = Some s3" "at_work s3 d" "s3 = s2\<lparr>g_rb := g_rb s3\<rparr>" by (rule reset_at_work [OF s2(2)])
  have "ready s2" using interfere_ready [OF s2(1)] assms(3) by simp
  then have "R_interrupts_pending s3 \<noteq> None" using s3(3) ready_def [of s2] by (metis bridge.select_convs(13) bridge.surjective bridge.update_convs(1))
  moreover have "cooperative api" using assms(1) by (simp add: well_behaved_def)
  ultimately obtain rc s' where "eval_code api code s3 = Some (rc, s')"
    using eval_code_returns [OF _ at_workD(1,2) [OF s3(2)]] by metis
  then show ?thesis using s2(1) s3(1) by (simp add: serve_command_def)
qed

lemma serve_runr_reply:
  assumes "cooperative api" "at_work s d" "responsive os"
  obtains s2 s3 b k where "run_r_on_worker api os (s\<lparr>pending_runr := None\<rparr>) = Some (b, k, s2)" "interfere s2 = Some s3"
    "serve_runr api os s = Some (s3\<lparr>runr_result := Some (runr_reply os), runr_done := True\<rparr>)"
proof -
  have w1: "at_work (s\<lparr>pending_runr := None\<rparr>) d" using assms(2) by simp
  obtain b k s2 ns where r: "run_r_on_worker api os (s\<lparr>pending_runr := None\<rparr>) = Some (b, k, s2)" "c_str b = Some (runr_reply os)"
    "emits (s\<lparr>pending_runr := None\<rparr>) ([] @ ns) d s2"
    by (rule run_r_on_worker_reply [OF assms(1) at_work_emits [OF w1] at_workD(2) [OF w1] assms(3)])
  obtain s3 where s3: "interfere s2 = Some s3" by (rule interfere_returns [OF emits_at_work [OF r(3) w1]])
  from that [OF r(1) s3] r(1,2) s3 show thesis by (simp add: serve_runr_def)
qed

lemma serve_returns:
  assumes "well_behaved api" "at_work s d" "ready s" "\<And>code. responsive (answers code)"
  shows "\<exists>s'. serve api answers s = Some s'"
proof -
  have co: "cooperative api" using assms(1) by (simp add: well_behaved_def)
  have pos: "- (2 ^ 31) \<le> pending_completion_pos s" "pending_completion_pos s < 2 ^ 31" using assms(3) by (auto simp: ready_def)
  have line: "\<exists>s'. serve_completion api line s = Some s'" for line
  proof -
    have "at_work (s\<lparr>pending_completion_line := None, pending_column_object := None\<rparr>) d" using assms(2) by simp
    then obtain s' where "run_completions api line (pending_completion_pos s) (s\<lparr>pending_completion_line := None, pending_column_object := None\<rparr>) = Some s'"
      using run_completions_emits [OF co at_workD(1,2) pos] by metis
    then show ?thesis unfolding serve_completion_def Let_def by blast
  qed
  have cols: "\<exists>s'. serve_columns api name s = Some s'" for name
  proof -
    have "at_work (s\<lparr>pending_column_object := None\<rparr>) d" using assms(2) by simp
    then obtain s' where "run_column_completions api name (s\<lparr>pending_column_object := None\<rparr>) = Some s'"
      using run_column_completions_emits [OF co at_workD(1,2)] by metis
    then show ?thesis unfolding serve_columns_def by blast
  qed
  have runr: "\<exists>s'. serve_runr api (answers code) s = Some s'" for code
    by (rule serve_runr_reply [OF co assms(2) assms(4)]) blast
  show ?thesis unfolding serve_def
    using serve_command_returns [OF assms(1-3)] line cols runr by (auto split: option.split)
qed

lemma worker_round_returns:
  assumes "well_behaved api" "at_work s d" "ready s" "\<And>code. responsive (answers code)"
  obtains s' where "worker_round api answers s = Some s'"
proof -
  obtain s1 where s1: "interfere s = Some s1" "at_work s1 d" by (rule interfere_returns [OF assms(2)])
  obtain s2' where s2': "interfere s1 = Some s2'" "at_work s2' d" by (rule interfere_returns [OF s1(2)])
  have r: "ready s1" "ready s2'" using interfere_ready s1(1) s2'(1) assms(3) by blast+
  define s2 where "s2 = (if nothing_pending s1 \<and> \<not> shutdown_flag s1 then s2' else s1)"
  have s2: "at_work s2 d" "ready s2" using s1(2) s2'(2) r by (simp_all add: s2_def)
  obtain s3 where s3: "serve api answers s2 = Some s3" using serve_returns [of api s2 d answers, OF assms(1) s2 assms(4)] by blast
  obtain s' where "process_events api s3 = Some s'" by (rule process_events_returns [OF assms(1) serve_at_work [OF s3 s2(1)]])
  then have "worker_round api answers s = Some s'" using s1(1) s2'(1) s3
    by (cases "nothing_pending s1 \<and> \<not> shutdown_flag s1") (auto simp: worker_round_def s2_def)
  with that show thesis .
qed

subsection \<open>What whole rounds keep\<close>

text \<open>An assertion that also survives the bookkeeping of the request slots and the reset of the ring
  before a command is kept by whole rounds.\<close>

locale round_frame = worker_frame I api
  for I :: "'h bridge \<Rightarrow> bool" and api :: "('s, 'h) r_api" +
  assumes cmd_slot: "I s \<Longrightarrow> I (s\<lparr>pending_cmd := None\<rparr>)"
    and completion_slots: "I s \<Longrightarrow> I (s\<lparr>pending_completion_line := None\<rparr>)" "I s \<Longrightarrow> I (s\<lparr>pending_column_object := None\<rparr>)"
    and runr_slots: "I s \<Longrightarrow> I (s\<lparr>pending_runr := None\<rparr>)" "I s \<Longrightarrow> I (s\<lparr>runr_result := Some x, runr_done := True\<rparr>)"
    and reset: "I s \<Longrightarrow> rffi_rb_reset s = Some s' \<Longrightarrow> I s'"
begin

lemma keep_serve_command:
  assumes "I s" "serve_command api code s = Some s'"
  shows "I s'"
proof -
  let ?s1 = "s\<lparr>pending_cmd := None, pending_completion_line := None, pending_column_object := None\<rparr>"
  obtain s2 s3 rc where st: "interfere ?s1 = Some s2" "rffi_rb_reset s2 = Some s3" "eval_code api code s3 = Some (rc, s')"
    using assms(2) by (auto simp: serve_command_def)
  have "I ?s1" by (intro cmd_slot completion_slots assms(1))
  then show ?thesis by (rule keep_eval_code [OF reset [OF others [OF _ st(1)] st(2)] st(3)])
qed

lemma keep_serve_runr:
  assumes "I s" "serve_runr api os s = Some s'"
  shows "I s'"
proof -
  obtain b k s2 s3 out where st: "run_r_on_worker api os (s\<lparr>pending_runr := None\<rparr>) = Some (b, k, s2)" "interfere s2 = Some s3"
    "s' = s3\<lparr>runr_result := Some out, runr_done := True\<rparr>" using assms(2) by (auto simp: serve_runr_def)
  have "I s2" by (rule keep_run_r [OF runr_slots(1) [OF assms(1)] st(1)])
  from runr_slots(2) [OF others [OF this st(2)]] st(3) show ?thesis by simp
qed

lemma keep_serve:
  assumes "I s" "serve api answers s = Some s'"
  shows "I s'"
proof -
  have l: "I s'" if "serve_completion api line s = Some s'" for line
    by (rule keep_completions(1) [OF _ that [unfolded serve_completion_def Let_def]]) (intro completion_slots assms(1))
  have o: "I s'" if "serve_columns api name s = Some s'" for name
    by (rule keep_completions(2) [OF _ that [unfolded serve_columns_def]]) (intro completion_slots assms(1))
  show ?thesis
    using assms keep_serve_command [OF assms(1)] keep_serve_runr [OF assms(1)] l o by (auto simp: serve_def split: option.splits)
qed

lemma keep_round:
  assumes "I s" "worker_round api answers s = Some s'"
  shows "I s'"
proof (rule worker_roundE [OF assms(2)])
  fix s1 s2 s3
  assume st: "interfere s = Some s1" "s2 = s1 \<or> interfere s1 = Some s2" "serve api answers s2 = Some s3" "process_events api s3 = Some s'"
  have "I s2" using others [OF assms(1) st(1)] st(2) others by auto
  from keep_events [OF keep_serve [OF this st(3)] st(4)] show ?thesis .
qed

lemma keep_rounds: "worker_steps api answers s s' \<Longrightarrow> I s \<Longrightarrow> I s'"
  by (induction rule: worker_steps.induct) (auto intro: keep_round)

end

interpretation ready_rounds: round_frame ready api
  for api :: "('s, 'h) r_api"
  by unfold_locales (auto simp: rffi_rb_reset_def)

subsection \<open>The stream through whole rounds\<close>

text \<open>
  \<open>since s0 s\<close>: since the state \<open>s0\<close> some messages were pushed, and the frontend's stream is what it was,
  followed by those messages as the ring stores them, with some of them possibly missing.
\<close>

definition since :: "'h bridge \<Rightarrow> 'h bridge \<Rightarrow> bool" where
  "since s0 s \<longleftrightarrow> live s \<and> (\<exists>ms. pushed s = pushed s0 @ ms \<and> subseq (stream s) (stream s0 @ map (wire_msg \<circ> stored cap) ms))"

lemma since_refl: "live s \<Longrightarrow> since s s"
  by (auto simp: since_def)

lemma since_extends:
  assumes "since s0 s" "extends s ns s'"
  shows "since s0 s'"
proof -
  let ?w = "map (wire_msg \<circ> stored cap)"
  obtain ms where ms: "pushed s = pushed s0 @ ms" "subseq (stream s) (stream s0 @ ?w ms)" using assms(1) by (auto simp: since_def)
  have "subseq (stream s @ ?w ns) ((stream s0 @ ?w ms) @ ?w ns)" using ms(2) by (blast intro: list_emb_append_mono)
  then have "subseq (stream s') (stream s0 @ ?w (ms @ ns))"
    using assms(2) unfolding extends_def by (auto intro: subseq_order.order_trans)
  with assms(2) ms(1) show ?thesis by (auto simp: since_def extends_def)
qed

lemma since_cong:
  assumes "since s0 s" "g_rb t = g_rb s" "frontend_log t = frontend_log s" "ui t = ui s" "pushed t = pushed s"
    "readline_input_buf t = readline_input_buf s \<or> readline_input_buf t = None"
  shows "since s0 t"
  using assms by (auto simp: since_def live_def stream_def)

lemma since_interfere: "since s0 s \<Longrightarrow> interfere s = Some s' \<Longrightarrow> since s0 s'"
  by (metis interfere_extends option.inject since_def since_extends)

lemma since_push_str: "since s0 s \<Longrightarrow> push_str kind x s = Some s' \<Longrightarrow> since s0 s'"
  by (metis push_str_extends option.inject since_def since_extends)

lemma since_push_empty: "since s0 s \<Longrightarrow> push kind data 0 s = Some s' \<Longrightarrow> since s0 s'"
  by (metis push_empty_extends option.inject since_def since_extends)

lemma since_reset:
  assumes "since s0 s" "rffi_rb_reset s = Some s'"
  shows "since s0 s'"
proof -
  have lv: "live s" using assms(1) by (simp add: since_def)
  obtain rb where rb: "rb_reset (Some (g_rb s)) = Some (Some rb)" "rb_ok rb" "rb_msgs rb = []" "rcap rb = rcap (g_rb s)"
    by (rule rb_reset_ok [OF liveD(1) [OF lv]])
  then have s': "s' = s\<lparr>g_rb := rb\<rparr>" using assms(2) by (simp add: rffi_rb_reset_def)
  have "subseq (stream s') (stream s)" using rb(3) by (auto simp: s' stream_def)
  with assms(1) rb lv show ?thesis by (auto simp: since_def live_def s' intro: subseq_order.order_trans)
qed

interpretation stream_rounds: round_frame "since s0" api
  for s0 :: "'h bridge" and api :: "('s, 'h) r_api"
proof unfold_locales
  fix s s' :: "'h bridge" and x otype kind data
  assume a: "since s0 s"
  show "interfere s = Some s' \<Longrightarrow> since s0 s'" by (rule since_interfere [OF a])
  show "push kind data 0 s = Some s' \<Longrightarrow> since s0 s'" by (rule since_push_empty [OF a])
  show "push_str kind x s = Some s' \<Longrightarrow> since s0 s'" by (rule since_push_str [OF a])
  show "rffi_rb_reset s = Some s' \<Longrightarrow> since s0 s'" by (rule since_reset [OF a])
  show "since s0 s'" if w: "write_console_ex x otype s = Some s'"
  proof (rule write_console_exE [OF w])
    show "since s0 s'" if i: "interfere s = Some s1" "push_str kind x s1 = Some s'" for s1 kind
      by (rule since_push_str [OF since_interfere [OF a i(1)] i(2)])
  qed (auto intro: since_cong [OF a])
qed (auto elim: since_cong)

subsection \<open>The request slots\<close>

text \<open>
  The abstract machine over the slots: one request per round, a command before a sandboxed
  evaluation before a completion before a column request; a command also drops the two others
  that its evaluation makes stale.
\<close>

definition serve_next :: "(cstring \<Rightarrow> cstring) \<Rightarrow> slots \<Rightarrow> slots" where
  "serve_next reply q =
     (case sl_cmd q of
        Some _ \<Rightarrow> q\<lparr>sl_cmd := None, sl_line := None, sl_object := None\<rparr>
      | None \<Rightarrow>
          (case sl_runr q of
             Some code \<Rightarrow> q\<lparr>sl_runr := None, sl_result := Some (reply code), sl_done := True\<rparr>
           | None \<Rightarrow> q\<lparr>sl_line := None, sl_object := None\<rparr>))"

lemma requests_simps [simp]:
  "requests (s\<lparr>pending_cmd := a\<rparr>) = (requests s)\<lparr>sl_cmd := a\<rparr>"
  "requests (s\<lparr>pending_completion_line := a\<rparr>) = (requests s)\<lparr>sl_line := a\<rparr>"
  "requests (s\<lparr>pending_column_object := a\<rparr>) = (requests s)\<lparr>sl_object := a\<rparr>"
  "requests (s\<lparr>pending_runr := a\<rparr>) = (requests s)\<lparr>sl_runr := a\<rparr>"
  "requests (s\<lparr>runr_result := a\<rparr>) = (requests s)\<lparr>sl_result := a\<rparr>"
  "requests (s\<lparr>runr_done := b\<rparr>) = (requests s)\<lparr>sl_done := b\<rparr>"
  "requests (s\<lparr>g_rb := rb\<rparr>) = requests s"
  "sl_cmd (requests s) = pending_cmd s" "sl_line (requests s) = pending_completion_line s"
  "sl_object (requests s) = pending_column_object s" "sl_runr (requests s) = pending_runr s"
  "sl_result (requests s) = runr_result s" "sl_done (requests s) = runr_done s"
  "sl_shutdown (requests s) = shutdown_flag s"
  by (simp_all add: requests_def)

lemma calm_simps [simp]:
  "calm (s\<lparr>pending_cmd := a\<rparr>) = calm s" "calm (s\<lparr>pending_completion_line := a\<rparr>) = calm s"
  "calm (s\<lparr>pending_column_object := a\<rparr>) = calm s" "calm (s\<lparr>pending_runr := a\<rparr>) = calm s"
  "calm (s\<lparr>runr_result := a\<rparr>) = calm s" "calm (s\<lparr>runr_done := b\<rparr>) = calm s" "calm (s\<lparr>g_rb := rb\<rparr>) = calm s"
  by (simp_all add: calm_def)

lemma serve_command_settled:
  assumes "serve_command api code s = Some s'" "settled q s"
  shows "settled (q\<lparr>sl_cmd := None, sl_line := None, sl_object := None\<rparr>) s'"
proof -
  let ?q = "q\<lparr>sl_cmd := None, sl_line := None, sl_object := None\<rparr>"
  obtain s2 s3 rc where st: "interfere (s\<lparr>pending_cmd := None, pending_completion_line := None, pending_column_object := None\<rparr>) = Some s2"
    "rffi_rb_reset s2 = Some s3" "eval_code api code s3 = Some (rc, s')" using assms(1) by (auto simp: serve_command_def)
  have "settled ?q s2" by (rule settled_interfere [OF _ st(1)]) (use assms(2) in \<open>auto simp: settled_def\<close>)
  then have s3: "settled ?q s3" using st(2) by (auto simp: rffi_rb_reset_def settled_def)
  show ?thesis by (rule settled.keep_eval_code [OF s3 st(3)])
qed

lemma serve_runr_settled:
  assumes "serve_runr api os s = Some s'" "settled q s" "cooperative api" "at_work s d" "responsive os"
  shows "settled (q\<lparr>sl_runr := None, sl_result := Some (runr_reply os), sl_done := True\<rparr>) s'"
proof -
  obtain s2 s3 b k where st: "run_r_on_worker api os (s\<lparr>pending_runr := None\<rparr>) = Some (b, k, s2)" "interfere s2 = Some s3"
    "serve_runr api os s = Some (s3\<lparr>runr_result := Some (runr_reply os), runr_done := True\<rparr>)"
    by (rule serve_runr_reply [OF assms(3-5)])
  have s1: "settled (q\<lparr>sl_runr := None\<rparr>) (s\<lparr>pending_runr := None\<rparr>)" using assms(2) by (auto simp: settled_def)
  have "settled (q\<lparr>sl_runr := None\<rparr>) s2" by (rule settled.keep_run_r [OF s1 st(1)])
  from settled_interfere [OF this st(2)] st(3) assms(1) show ?thesis by (auto simp: settled_def)
qed

lemma serve_completions_settled:
  assumes "settled q s"
  shows "serve_completion api line s = Some s' \<Longrightarrow> settled (q\<lparr>sl_line := None, sl_object := None\<rparr>) s'"
    "serve_columns api name s = Some s' \<Longrightarrow> settled (q\<lparr>sl_object := None\<rparr>) s'"
proof -
  have l: "settled (q\<lparr>sl_line := None, sl_object := None\<rparr>) (s\<lparr>pending_completion_line := None, pending_column_object := None\<rparr>)"
    and o: "settled (q\<lparr>sl_object := None\<rparr>) (s\<lparr>pending_column_object := None\<rparr>)"
    using assms by (auto simp: settled_def)
  show "serve_completion api line s = Some s' \<Longrightarrow> settled (q\<lparr>sl_line := None, sl_object := None\<rparr>) s'"
    unfolding serve_completion_def Let_def by (rule settled.keep_completions(1) [OF l])
  show "serve_columns api name s = Some s' \<Longrightarrow> settled (q\<lparr>sl_object := None\<rparr>) s'"
    unfolding serve_columns_def by (rule settled.keep_completions(2) [OF o])
qed

lemma serve_settled:
  assumes "serve api answers s = Some s'" "settled (requests s) s" "cooperative api" "at_work s d" "\<And>code. responsive (answers code)"
  shows "settled (serve_next (runr_reply \<circ> answers) (requests s)) s'"
proof (cases "pending_cmd s")
  case (Some code)
  with serve_command_settled [OF _ assms(2)] assms(1) show ?thesis by (simp add: serve_def serve_next_def)
next
  case cmd: None
  show ?thesis
  proof (cases "pending_runr s")
    case (Some code)
    with cmd serve_runr_settled [OF _ assms(2,3,4,5), of code s'] assms(1) show ?thesis by (simp add: serve_def serve_next_def)
  next
    case runr: None
    show ?thesis
    proof (cases "pending_completion_line s")
      case (Some line)
      with cmd runr serve_completions_settled(1) [OF assms(2)] assms(1) show ?thesis by (simp add: serve_def serve_next_def)
    next
      case line: None
      have q: "(requests s)\<lparr>sl_line := None, sl_object := None\<rparr> = (requests s)\<lparr>sl_object := None\<rparr>"
        using line by (simp add: requests_def)
      have n: "settled ((requests s)\<lparr>sl_object := None\<rparr>) s'"
        using cmd runr line assms(1,2) serve_completions_settled(2) [OF assms(2)]
        by (cases "pending_column_object s") (auto simp: serve_def requests_def settled_def)
      show ?thesis using cmd runr q n by (simp add: serve_next_def)
    qed
  qed
qed

lemma worker_round_settled:
  assumes "worker_round api answers s = Some s'" "calm s" "cooperative api" "at_work s d" "\<And>code. responsive (answers code)"
  shows "settled (serve_next (runr_reply \<circ> answers) (requests s)) s'"
proof (rule worker_roundE [OF assms(1)])
  fix s1 s2 s3
  assume st: "interfere s = Some s1" "s2 = s1 \<or> interfere s1 = Some s2" "serve api answers s2 = Some s3" "process_events api s3 = Some s'"
  have s1: "settled (requests s) s1"
    by (rule settled_interfere [OF _ st(1)]) (use assms(2) in \<open>simp add: settled_def\<close>)
  then have s2: "settled (requests s) s2" using st(2) settled_interfere by auto
  have w2: "at_work s2 d" using interfere_at_work [OF st(1) assms(4)] st(2) interfere_at_work by auto
  have q: "requests s2 = requests s" using s2 by (simp add: settled_def)
  have s3: "settled (serve_next (runr_reply \<circ> answers) (requests s)) s3"
    using serve_settled [OF st(3) _ assms(3) w2 assms(5)] s2 q by simp
  show ?thesis by (rule settled.keep_events [OF s3 st(4)])
qed

text \<open>A calm round as one step of the abstract machine, with everything the next one needs.\<close>

definition on_duty :: "nat \<Rightarrow> 'h bridge \<Rightarrow> bool" where
  "on_duty d s \<longleftrightarrow> at_work s d \<and> ready s \<and> calm s"

lemma worker_round_step:
  assumes "well_behaved api" "\<And>code. responsive (answers code)" "on_duty d s"
  obtains s' where "worker_round api answers s = Some s'" "on_duty d s'"
    "requests s' = serve_next (runr_reply \<circ> answers) (requests s)"
proof -
  have s: "at_work s d" "ready s" "calm s" using assms(3) by (simp_all add: on_duty_def)
  obtain s' where s': "worker_round api answers s = Some s'"
    by (rule worker_round_returns [where answers = answers, OF assms(1) s(1,2) assms(2)])
  have "cooperative api" using assms(1) by (simp add: well_behaved_def)
  from worker_round_settled [OF s' s(3) this s(1) assms(2)]
  have q: "calm s'" "requests s' = serve_next (runr_reply \<circ> answers) (requests s)" by (simp_all add: settled_def)
  have "on_duty d s'" using worker_round_at_work [OF s' s(1)] ready_rounds.keep_round [OF s(2) s'] q(1) by (simp add: on_duty_def)
  from that [OF s' this q(2)] show thesis .
qed

text \<open>Three rounds empty the slots; an evaluation is answered after at most two.\<close>

lemma serve_next_thrice:
  fixes reply
  defines "f \<equiv> serve_next reply"
  shows "sl_cmd (f (f (f q))) = None" "sl_runr (f (f (f q))) = None" "sl_line (f (f (f q))) = None" "sl_object (f (f (f q))) = None"
    "sl_runr q = Some code \<Longrightarrow> sl_done (f (f (f q))) \<and> sl_result (f (f (f q))) = Some (reply code)"
  by (auto simp: f_def serve_next_def split: option.split)

lemma runr_wait_answer:
  assumes "well_behaved api" "\<And>code. responsive (answers code)" "on_duty d s" "pending_runr s = Some code" "\<not> shutdown_flag s" "\<not> runr_done s"
  obtains s' where "runr_wait api answers s = Some s'" "runr_done s'" "runr_result s' = Some (runr_reply (answers code))"
    "pending_runr s' = None" "pending_cmd s' = None" "on_duty d s'"
proof -
  let ?f = "serve_next (runr_reply \<circ> answers)"
  obtain s1 where s1: "worker_round api answers s = Some s1" "on_duty d s1" "requests s1 = ?f (requests s)"
    by (rule worker_round_step [OF assms(1-3)])
  show thesis
  proof (cases "pending_cmd s")
    case None
    have q: "requests s1 = (requests s)\<lparr>sl_runr := None, sl_result := Some (runr_reply (answers code)), sl_done := True\<rparr>"
      using s1(3) None assms(4) by (simp add: serve_next_def)
    have d: "runr_done s1" "runr_result s1 = Some (runr_reply (answers code))" "pending_runr s1 = None" "pending_cmd s1 = None"
      using arg_cong [OF q, of sl_done] arg_cong [OF q, of sl_result] arg_cong [OF q, of sl_runr] arg_cong [OF q, of sl_cmd] None by simp_all
    have "runr_wait api answers s1 = Some s1" using d(1) runr_wait.simps [of api answers s1] by simp
    then have "runr_wait api answers s = Some s1" using s1(1) assms(5,6) runr_wait.simps [of api answers s] by simp
    from that [OF this d s1(2)] show thesis .
  next
    case (Some c)
    have q: "requests s1 = (requests s)\<lparr>sl_cmd := None, sl_line := None, sl_object := None\<rparr>"
      using s1(3) Some by (simp add: serve_next_def)
    have d1: "\<not> runr_done s1" "pending_runr s1 = Some code" "pending_cmd s1 = None" "\<not> shutdown_flag s1"
      using arg_cong [OF q, of sl_done] arg_cong [OF q, of sl_runr] arg_cong [OF q, of sl_cmd] arg_cong [OF q, of sl_shutdown] assms(4-6)
      by simp_all
    obtain s2 where s2: "worker_round api answers s1 = Some s2" "on_duty d s2" "requests s2 = ?f (requests s1)"
      by (rule worker_round_step [OF assms(1,2) s1(2)])
    have q2: "requests s2 = (requests s1)\<lparr>sl_runr := None, sl_result := Some (runr_reply (answers code)), sl_done := True\<rparr>"
      using s2(3) d1(2,3) by (simp add: serve_next_def)
    have d: "runr_done s2" "runr_result s2 = Some (runr_reply (answers code))" "pending_runr s2 = None" "pending_cmd s2 = None"
      using arg_cong [OF q2, of sl_done] arg_cong [OF q2, of sl_result] arg_cong [OF q2, of sl_runr] arg_cong [OF q2, of sl_cmd] d1(3) by simp_all
    have "runr_wait api answers s2 = Some s2" using d(1) runr_wait.simps [of api answers s2] by simp
    then have "runr_wait api answers s1 = Some s2" using s2(1) d1(1,4) runr_wait.simps [of api answers s1] by simp
    then have "runr_wait api answers s = Some s2" using s1(1) assms(5,6) runr_wait.simps [of api answers s] by simp
    from that [OF this d s2(2)] show thesis .
  qed
qed

end
