(* ===== verification/Startup.thy ===== *)
theory Startup
  imports Worker_Progress
begin

section \<open>What startup and shutdown guarantee\<close>

text \<open>
  The symbol table, the capture of what R prints while it starts, and the states that
  \<open>rffi_start\<close> and \<open>rffi_shutdown\<close> leave behind.
\<close>

subsection \<open>Symbols\<close>

lemma load_required_eq:
  "load_required has ns = (if \<forall>n \<in> set ns. has n then (0, ns) else (-1, takeWhile has ns))"
  by (induction ns) auto

lemma load_symbols_eq:
  "load_symbols bt =
     (if \<forall>n \<in> set required_symbols. dlsym bt n then (0, required_symbols @ filter (dlsym bt) optional_symbols)
      else (-1, takeWhile (dlsym bt) required_symbols))"
  by (simp add: load_symbols_def load_required_eq)

subsection \<open>Output during startup\<close>

text \<open>The text a call prints if it asks for no input and returns.\<close>

primrec startup_text :: "('a, 'h) rcall \<Rightarrow> byte list option" where
  "startup_text (R_return a h) = Some []"
| "startup_text (R_longjmp h) = None"
| "startup_text (R_write txt otype k) = map_option ((@) txt) (startup_text k)"
| "startup_text (R_flush k) = startup_text k"
| "startup_text (R_message msg k) = startup_text k"
| "startup_text (R_read prompt len k) = None"
| "startup_text (R_enter_passthrough k) = None"
| "startup_text (R_exit_passthrough k) = startup_text k"
| "startup_text (R_emit_image src prev width height mime k) = startup_text k"

text \<open>The capture buffer holds \<open>x\<close> and its terminator, or is not there yet.\<close>

definition captured :: "'h bridge \<Rightarrow> byte list \<Rightarrow> bool" where
  "captured s x \<longleftrightarrow> init_output_len s = length x \<and>
     (case init_output_buf s of
        None \<Rightarrow> x = [] \<and> init_output_cap s = 0
      | Some b \<Rightarrow> length b = init_output_cap s \<and> (\<exists>rest. b = x @ 0 # rest))"

lemma captured_steady: "steady s' = steady s \<Longrightarrow> captured s' x = captured s x"
  by (auto simp: captured_def steady_def split: option.split)

lemma cb_init_capture_ok:
  assumes "captured s x" "length x + length txt < 2 ^ 62"
  obtains b n c where "cb_init_capture txt otype s = Some (s\<lparr>init_output_buf := b, init_output_len := n, init_output_cap := c\<rparr>)"
    "captured (s\<lparr>init_output_buf := b, init_output_len := n, init_output_cap := c\<rparr>) (x @ txt)"
proof (cases "txt = []")
  case True
  with that [of "init_output_cap s" "init_output_len s" "init_output_buf s"] assms(1) show thesis
    by (simp add: cb_init_capture_def)
next
  case False
  let ?n = "length x + length txt + 1"
  have len: "init_output_len s = length x" using assms(1) by (simp add: captured_def)
  have need: "sz_add (sz_add (init_output_len s) (length txt)) 1 = ?n" "sz_mul ?n 2 = ?n * 2"
    "sz_add (init_output_len s) (length txt) = length x + length txt"
    using assms(2) len by (simp_all add: c_simps)
  define c where "c = (if init_output_cap s < ?n then ?n * 2 else init_output_cap s)"
  define b where "b = (if init_output_cap s < ?n then realloc (init_output_buf s) (?n * 2) else block_of (init_output_buf s))"
  have b: "length b = c" "?n \<le> length b" "take (length x) b = x"
    using assms(1) take_realloc [of "length x" _ "?n * 2"]
    by (auto simp: b_def c_def captured_def realloc_def split: option.splits)
  let ?b = "x @ txt @ drop (length x + length txt) b"
  have cp: "memcpy b (length x) txt 0 (length txt) = Some ?b" using b by (simp add: memcpy_def)
  have st: "store ?b (length x + length txt) 0 = Some (x @ txt @ 0 # drop ?n b)"
    using b by (simp add: store_def list_update_append Cons_nth_drop_Suc [symmetric])
  have "cb_init_capture txt otype s = Some (s\<lparr>init_output_buf := Some (x @ txt @ 0 # drop ?n b), init_output_len := length x + length txt, init_output_cap := c\<rparr>)"
  proof (cases "init_output_cap s < ?n")
    case True
    then show ?thesis using False cp st need len by (simp add: cb_init_capture_def Let_def b_def c_def)
  next
    case le: False
    then obtain b0 where "init_output_buf s = Some b0" using assms(1) False by (auto simp: captured_def split: option.splits)
    with le show ?thesis using False cp st need len by (simp add: cb_init_capture_def Let_def b_def c_def)
  qed
  then show thesis by (rule that) (use b in \<open>simp add: captured_def\<close>)
qed

lemma capture_frame:
  assumes "live s" "write_console s = Cb_init_capture"
  shows "live (s\<lparr>init_output_buf := b, init_output_len := n, init_output_cap := c\<rparr>)"
    "write_console (s\<lparr>init_output_buf := b, init_output_len := n, init_output_cap := c\<rparr>) = Cb_init_capture"
  using assms by (simp_all add: live_def)

lemma capture_callback:
  assumes "callback_run s s1"
  shows "live s1" "write_console s1 = write_console s" "captured s1 x = captured s x" "protect_depth s1 = protect_depth s"
proof -
  have "steady s1 = steady s" using assms by (simp add: callback_run_def)
  then show "live s1" "write_console s1 = write_console s" "captured s1 x = captured s x" "protect_depth s1 = protect_depth s"
    using callback_run_live [OF assms] captured_steady by (auto simp: steady_def)
qed

text \<open>\<open>setup_Rmainloop\<close> runs to its end and all it prints is captured.\<close>

lemma setup_captures:
  "startup_text t = Some y \<Longrightarrow> live s \<Longrightarrow> write_console s = Cb_init_capture \<Longrightarrow> captured s x \<Longrightarrow> length x + length y < 2 ^ 62 \<Longrightarrow>
   \<exists>a s'. run_rcall t s = Some (Some a, s') \<and> live s' \<and> captured s' (x @ y) \<and> protect_depth s' = protect_depth s"
proof (induction t arbitrary: s x y)
  case (R_return a h)
  then show ?case by (auto simp: live_def captured_def split: option.splits)
next
  case (R_write w otype k)
  then obtain z where z: "startup_text k = Some z" "y = w @ z" by auto
  have l: "length x + length w < 2 ^ 62" using R_write.prems(5) z(2) by simp
  obtain b n c where s1: "cb_init_capture w otype s = Some (s\<lparr>init_output_buf := b, init_output_len := n, init_output_cap := c\<rparr>)"
    "captured (s\<lparr>init_output_buf := b, init_output_len := n, init_output_cap := c\<rparr>) (x @ w)"
    by (rule cb_init_capture_ok [OF R_write.prems(4) l])
  from R_write.IH [OF z(1) capture_frame [OF R_write.prems(2,3)] s1(2)] R_write.prems(3,5) s1(1) z(2) show ?case
    by (auto simp: write_console_ex_def)
next
  case (R_message msg k)
  obtain s1 where s1: "cb_show_message msg s = Some s1" "callback_run s s1" by (rule show_message_run [OF R_message.prems(2)])
  note c = capture_callback [OF s1(2)]
  from R_message.IH [of y s1 x] R_message.prems s1(1) c show ?case by simp
next
  case (R_exit_passthrough k)
  obtain s1 where s1: "raoui_exit_passthrough s = Some s1" "callback_run s s1" by (rule exit_passthrough_run [OF R_exit_passthrough.prems(2)])
  note c = capture_callback [OF s1(2)]
  from R_exit_passthrough.IH [of y s1 x] R_exit_passthrough.prems s1(1) c show ?case by simp
next
  case (R_emit_image a b c d e k)
  obtain s1 where s1: "raoui_emit_image a b c d e s = Some s1" "callback_run s s1" by (rule emit_image_run [OF R_emit_image.prems(2)])
  note c = capture_callback [OF s1(2)]
  from R_emit_image.IH [of y s1 x] R_emit_image.prems s1(1) c show ?case by simp
qed (auto simp: cb_flush_console_def)

subsection \<open>The start\<close>

text \<open>R's heap when \<open>setup_Rmainloop\<close> is called: no signal handlers of R's own, interactive, no stack
  check.\<close>

definition boot_heap :: "'h boot \<Rightarrow> cstring \<Rightarrow> 'h \<Rightarrow> 'h" where
  "boot_heap bt r_home h = write_R_variable bt ''R_CStackLimit'' (2 ^ 64 - 1) (write_R_variable bt ''R_Interactive'' 1
     (initialize_R bt r_home [''raoui'', ''--quiet'', ''--no-save''] (write_R_variable bt ''R_SignalHandlers'' 0 h)))"

lemma init_r_fails:
  assumes "\<not> dlopen bt (libr_path r_home) \<or> (\<exists>n \<in> set required_symbols. \<not> dlsym bt n)"
  obtains s' where "init_r bt r_home s = Some (-1, s')" "r_heap s' = r_heap s"
proof (cases "dlopen bt (libr_path r_home)")
  case False
  with that [of s] show thesis by (simp add: init_r_def load_libr_def)
next
  case True
  with assms have "load_symbols bt = (-1, takeWhile (dlsym bt) required_symbols)" by (auto simp: load_symbols_eq)
  with True that show thesis by (simp add: init_r_def load_libr_def)
qed

lemma init_r_ok:
  assumes "dlopen bt (libr_path r_home)" "\<forall>n \<in> set required_symbols. dlsym bt n"
    "startup_text (setup_Rmainloop bt (boot_heap bt r_home (r_heap s))) = Some y" "length y < 2 ^ 62"
    "live s" "captured s []" "- (2 ^ 31) \<le> pending_completion_pos s" "pending_completion_pos s < 2 ^ 31"
  obtains s' where "init_r bt r_home s = Some (0, s')" "at_work s' (protect_depth s)" "ready s'" "captured s' y"
    "calm s \<longrightarrow> settled (requests s) s'"
proof -
  let ?h = "boot_heap bt r_home (r_heap s)"
  let ?s2 = "s\<lparr>R_interrupts_pending := Some 0, r_heap := ?h, write_console := Cb_init_capture\<rparr>"
  have s2: "live ?s2" "captured ?s2 []" "ready ?s2"
    using assms(5-8) by (auto simp: live_def captured_def ready_def split: option.splits)
  obtain a s3 where s3: "run_rcall (setup_Rmainloop bt ?h) ?s2 = Some (Some a, s3)" "live s3" "captured s3 y" "protect_depth s3 = protect_depth s"
    using setup_captures [OF assms(3) s2(1) _ s2(2)] assms(4) by auto
  have r3: "ready s3" by (rule ready.keep_call [OF s2(3) s3(1)])
  have sym: "load_symbols bt = (0, required_symbols @ filter (dlsym bt) optional_symbols)"
    using assms(2) by (simp add: load_symbols_eq)
  have mem: "''R_interrupts_pending'' \<in> set required_symbols" by (simp add: required_symbols_def)
  let ?s' = "s3\<lparr>write_console := Cb_write_console_ex,
    r_heap := registerRoutines bt call_methods (install_symbol bt ''raoui_after_top_level'' (install_symbol bt ''withVisible'' (r_heap s3)))\<rparr>"
  have "init_r bt r_home s = Some (0, ?s')"
    using s3(1) assms(1) mem by (simp add: init_r_def load_libr_def sym boot_heap_def)
  moreover have "at_work ?s' (protect_depth s)" using s3(2,4) by (simp add: at_work_def live_def)
  moreover have "ready ?s'" using r3 by (simp add: ready_def)
  moreover have "captured ?s' y" using s3(3) by (auto simp: captured_def split: option.splits)
  moreover have "calm s \<longrightarrow> settled (requests s) ?s'"
  proof
    assume "calm s"
    then have "settled (requests s) ?s2" by (simp add: settled_def calm_def requests_def)
    then have "settled (requests s) s3" by (rule settled.keep_call [OF _ s3(1)])
    then show "settled (requests s) ?s'" by (simp add: settled_def calm_def requests_def)
  qed
  ultimately show thesis by (rule that)
qed

text \<open>An operating system and an R installation with all that \<open>rffi_start\<close> needs.\<close>

definition bootable :: "'h boot \<Rightarrow> cstring \<Rightarrow> bool" where
  "bootable bt r_home \<longleftrightarrow> (\<exists>b. ring_block bt (1024 * 1024) = Some b) \<and> mutex_init_rc bt = 0 \<and> setstacksize_rc bt = 0 \<and>
     dlopen bt (libr_path r_home) \<and> (\<forall>n \<in> set required_symbols. dlsym bt n)"

lemma rb_init_fails:
  assumes "mal 1048576 = None \<or> rc \<noteq> 0"
  obtains rb where "rb_init mal rc (Some rb0) 1048576 = (-1, Some rb)"
  using assms that by (cases "mal 1048576") (auto simp: rb_init_def Let_def RB_FRAME_HEADER_SIZE_def c_simps)

lemma rffi_start_fails:
  assumes "thread_starts bt" "\<not> bootable bt r_home"
  obtains s' where "rffi_start bt r_home s = Some (-1, s')" "r_heap s' = r_heap s"
proof (cases "ring_block bt 1048576 = None \<or> mutex_init_rc bt \<noteq> 0")
  case True
  then obtain rb where "rb_init (ring_block bt) (mutex_init_rc bt) (Some (g_rb s)) 1048576 = (-1, Some rb)" by (rule rb_init_fails)
  with that [of "s\<lparr>g_rb := rb\<rparr>"] show thesis by (simp add: rffi_start_def)
next
  case False
  then obtain b where b: "ring_block bt 1048576 = Some b" "mutex_init_rc bt = 0" by auto
  obtain rb where rb: "rb_init (ring_block bt) 0 (Some (g_rb s)) 1048576 = (0, Some rb)"
    using b by (simp add: rb_init_def Let_def RB_FRAME_HEADER_SIZE_def c_simps)
  show thesis
  proof (cases "setstacksize_rc bt = 0")
    case False
    with that [of "s\<lparr>g_rb := rb\<rparr>"] rb b show thesis by (simp add: rffi_start_def)
  next
    case True
    with assms(2) b have "\<not> dlopen bt (libr_path r_home) \<or> (\<exists>n \<in> set required_symbols. \<not> dlsym bt n)" by (auto simp: bootable_def)
    then obtain s' where "init_r bt r_home (s\<lparr>g_rb := rb\<rparr>) = Some (-1, s')" "r_heap s' = r_heap (s\<lparr>g_rb := rb\<rparr>)" by (rule init_r_fails)
    with that [of s'] True rb b assms(1) show thesis by (simp add: rffi_start_def)
  qed
qed

lemma rffi_start_bootable:
  assumes "bootable bt r_home" "thread_starts bt"
  shows "\<nexists>s'. rffi_start bt r_home s = Some (-1, s')"
proof -
  obtain b where b: "ring_block bt 1048576 = Some b" "mutex_init_rc bt = 0" "setstacksize_rc bt = 0"
    "dlopen bt (libr_path r_home)" "\<forall>n \<in> set required_symbols. dlsym bt n" using assms(1) by (auto simp: bootable_def)
  obtain rb where rb: "rb_init (ring_block bt) 0 (Some (g_rb s)) 1048576 = (0, Some rb)"
    using b by (simp add: rb_init_def Let_def RB_FRAME_HEADER_SIZE_def c_simps)
  have "init_r bt r_home s1 \<noteq> Some (-1, s')" for s1 s'
    using b(4,5) by (auto simp: init_r_def load_libr_def load_symbols_eq Let_def)
  then show ?thesis using rb b assms(2) by (simp add: rffi_start_def)
qed

lemma rffi_start_ok:
  assumes "bootable bt r_home" "thread_starts bt" "\<And>n b. ring_block bt n = Some b \<Longrightarrow> length b = n"
    "startup_text (setup_Rmainloop bt (boot_heap bt r_home h)) = Some y" "length y < 2 ^ 62" "\<forall>b \<in> set us. \<forall>a \<in> set b. ui_ok a"
  obtains s' where "rffi_start bt r_home (program_start h us) = Some (0, s')" "at_work s' 0" "ready s'" "captured s' y"
    "calm (program_start h us) \<longrightarrow> settled (requests (program_start h us)) s'"
proof -
  let ?s = "program_start h us"
  obtain b where b: "ring_block bt 1048576 = Some b" "mutex_init_rc bt = 0" "setstacksize_rc bt = 0"
    "dlopen bt (libr_path r_home)" "\<forall>n \<in> set required_symbols. dlsym bt n" using assms(1) by (auto simp: bootable_def)
  obtain rb where rb: "rb_init (ring_block bt) 0 (Some (g_rb ?s)) 1048576 = (0, Some rb)" "rb_ok rb" "rcap rb = 1048576"
    by (rule rb_init_ok [of 1048576 "ring_block bt" b "g_rb ?s"]) (use b(1) assms(3) in \<open>simp_all add: RB_FRAME_HEADER_SIZE_def\<close>)
  let ?s1 = "?s\<lparr>g_rb := rb\<rparr>"
  have q: "calm ?s1 = calm ?s" "requests ?s1 = requests ?s" by (simp_all add: calm_def requests_def)
  have s1: "live ?s1" "captured ?s1 []" "r_heap ?s1 = h" "protect_depth ?s1 = 0" "pending_completion_pos ?s1 = 0"
    using rb(2,3) assms(6) by (simp_all add: live_def captured_def program_start_def CAML_RFFI_POP_BUF_CAP_def)
  obtain s' where s': "init_r bt r_home ?s1 = Some (0, s')" "at_work s' (protect_depth ?s1)" "ready s'" "captured s' y"
    "calm ?s1 \<longrightarrow> settled (requests ?s1) s'"
    by (rule init_r_ok [OF b(4,5) _ assms(5) s1(1,2)]) (use assms(4) s1 in simp_all)
  have "rffi_start bt r_home ?s = Some (0, s')" using rb(1) b(2,3) assms(2) s'(1) by (simp add: rffi_start_def)
  from that [OF this] s' s1(4) q show thesis by simp
qed

lemma rffi_start_settled:
  assumes "bootable bt r_home" "thread_starts bt" "\<And>n b. ring_block bt n = Some b \<Longrightarrow> length b = n"
    "startup_text (setup_Rmainloop bt (boot_heap bt r_home h)) = Some y" "length y < 2 ^ 62"
    "\<forall>b \<in> set us. \<forall>a \<in> set b. ui_ok a \<and> calm_action a"
  obtains s' where "rffi_start bt r_home (program_start h us) = Some (0, s')" "at_work s' 0" "ready s'"
    "calm s'" "nothing_pending s'" "\<not> shutdown_flag s'"
proof -
  let ?p = "program_start h us"
  have c: "calm ?p" and u: "\<forall>b \<in> set us. \<forall>a \<in> set b. ui_ok a" using assms(6) by (simp_all add: calm_def program_start_def)
  obtain s' where s': "rffi_start bt r_home ?p = Some (0, s')" "at_work s' 0" "ready s'" "calm ?p \<longrightarrow> settled (requests ?p) s'"
    by (rule rffi_start_ok [OF assms(1-5) u])
  have "requests s' = requests ?p" "calm s'" using s'(4) c by (simp_all add: settled_def)
  then have "nothing_pending s'" "\<not> shutdown_flag s'" by (simp_all add: nothing_pending_def requests_def program_start_def)
  from that [OF s'(1-3) \<open>calm s'\<close> this] show thesis .
qed

lemma rffi_shutdown_ok:
  assumes "well_behaved api" "\<And>code. responsive (answers code)" "at_work s d" "ready s"
  obtains s1 rb where "rffi_shutdown api answers busy s = Some (s1\<lparr>g_rb := rb\<rparr>)"
    "rb_deinit (Some (g_rb s1)) = Some (Some rb)" "rb_ok (g_rb s1)" "protect_depth s1 = d"
proof -
  let ?s = "s\<lparr>shutdown_flag := True\<rparr>"
  have s: "at_work ?s d" "ready ?s" using assms(3,4) by (simp_all add: at_work_def live_def ready_def)
  obtain s1' where s1': "worker_round api answers ?s = Some s1'"
    by (rule worker_round_returns [where answers = answers, OF assms(1) s assms(2)])
  define s1 where "s1 = (if busy then s1' else ?s)"
  have w: "at_work s1 d" using worker_round_at_work [OF s1' s(1)] s(1) by (simp add: s1_def)
  then have ok: "rb_ok (g_rb s1)" "protect_depth s1 = d" by (simp_all add: at_work_def live_def)
  then have "rlock (g_rb s1) = Mutex_free" by (simp add: rb_ok_def)
  then obtain rb where rb: "rb_deinit (Some (g_rb s1)) = Some (Some rb)" by (simp add: rb_deinit_def)
  have "rffi_shutdown api answers busy s = Some (s1\<lparr>g_rb := rb\<rparr>)"
    using rb s1' by (cases busy) (simp_all add: rffi_shutdown_def s1_def)
  from that [OF this rb ok] show thesis .
qed

end
