(* ===== verification/Eval_Props.thy ===== *)
theory Eval_Props
  imports Eval_Protocol
begin

section \<open>Properties of evaluation and of the callbacks\<close>

text \<open>
  The statements about evaluations, completions, console input, passthrough and images, each
  for any interleaving of the frontend, with instances on a small R runtime.
\<close>

subsection \<open>A small runtime\<close>

text \<open>Every text parses to one expression; evaluating it prints \<open>hi\<close> and gives a visible
  value, or fails after printing \<open>no\<close>; printing a value prints \<open>42\<close>.\<close>

definition demo_api :: "bool \<Rightarrow> (int, unit) r_api" where
  "demo_api fails = \<lparr>
     Rf_mkString = (\<lambda>x h. (int (length x), h)),
     R_ParseVector = (\<lambda>x h. if x = 0 then R_return (None, PARSE_INCOMPLETE) h else R_return (Some x, PARSE_OK) h),
     R_ParseVector_stored = (\<lambda>x h. None),
     R_tryEval = (\<lambda>x h. if fails then R_write (bytes ''no'') 1 (R_longjmp h)
       else R_write (bytes ''hi'') 0 (R_return (Some 1, 0) h)),
     Rf_PrintValue = (\<lambda>x h. R_write (bytes ''42'') 0 (R_return () h)),
     VECTOR_ELT_fn = (\<lambda>x i h. 1), Rf_length_fn = (\<lambda>x h. 1),
     Rf_install = (\<lambda>x h. (2, h)), Rf_lang1 = (\<lambda>x h. (3, h)), Rf_lang2 = (\<lambda>x y h. (4, h)),
     Rf_asLogical = (\<lambda>x h. 1), Rf_asChar = (\<lambda>x h. (5, h)), R_CHAR_fn = (\<lambda>x h. bytes ''tok''),
     Rf_defineVar = (\<lambda>x y z h. h), Rf_findVar = (\<lambda>x y h. 9),
     R_GlobalEnv = 0, R_NilValue = 0, R_UnboundValue = 9, withVisible_sym = 7, raoui_after_top_level_sym = 8,
     R_ToplevelExec_fn = True, R_ProcessEvents_fn = None, R_checkActivity_fn = None, R_runHandlers_fn = None,
     R_InputHandlers_ptr = False\<rparr>"

lemma demo_api_cooperative: "cooperative (demo_api fails)"
  by (simp add: cooperative_def demo_api_def)

subsection \<open>Evaluation\<close>

lemma chatter_kinds:
  "chatter ms \<Longrightarrow> RB_MSG_DONE \<notin> mkind ` set ms" "chatter ms \<Longrightarrow> RB_MSG_R_ERROR \<notin> mkind ` set ms"
  by (auto simp: chatter_def callback_kinds_def RB_MSG_STDOUT_def RB_MSG_STDERR_def RB_MSG_READLINE_def
      RB_MSG_PASSTHROUGH_def RB_MSG_PASSTHROUGH_END_def RB_MSG_IMAGE_def RB_MSG_DONE_def RB_MSG_R_ERROR_def)

lemma done_error_differ [simp]: "RB_MSG_R_ERROR \<noteq> RB_MSG_DONE" "RB_MSG_DONE \<noteq> RB_MSG_R_ERROR"
  by (simp_all add: RB_MSG_DONE_def RB_MSG_R_ERROR_def)

text \<open>C1: Whatever R does during \<open>eval_code\<close> (errors, jumps to top level, output, prompts, images)
  and however the frontend's calls interleave, the messages \<open>ms\<close> that an evaluation which
  returns has handed to \<open>rb_push\<close> (what it appended to the history \<open>pushed\<close>) contain exactly one
  end marker, as the last of them, and at most one error message, exactly one if
  and only if it returns -1 (otherwise it returns 0); everything it pushed reaches the frontend
  in order, complete if it fits the ring and with the oldest messages dropped otherwise, the end
  marker always; and R's protection stack is as high as before.\<close>

theorem eval_ends_with_done:
  assumes "live s" "write_console s = Cb_write_console_ex" "eval_code api code s = Some (rc, s')"
  shows "\<exists>ms. pushed s' = pushed s @ ms \<and> extends s ms s' \<and> ms \<noteq> [] \<and> last ms = Msg RB_MSG_DONE 0 [] \<and>
      RB_MSG_DONE \<notin> mkind ` set (butlast ms) \<and>
      length (filter (\<lambda>m. mkind m = RB_MSG_R_ERROR) ms) = (if rc = 0 then 0 else 1) \<and>
      rc \<in> {0, -1} \<and> stream s' \<noteq> [] \<and> last (stream s') = wire_msg (Msg RB_MSG_DONE 0 []) \<and>
      protect_depth s' = protect_depth s"
proof -
  obtain ns err where e: "chatter ns" "emits s (ns @ err @ [done_msg]) (protect_depth s) s'"
    "last (stream s') = wire_msg done_msg" "stream s' \<noteq> []"
    "rc = 0 \<and> err = [] \<or> rc = -1 \<and> (\<exists>x. err = [Msg RB_MSG_R_ERROR 0 x])"
    by (rule eval_code_emits [OF assms(3,1,2)])
  have "filter (\<lambda>m. mkind m = RB_MSG_R_ERROR) ns = []"
    using chatter_kinds(2) [OF e(1)] by (metis (mono_tags) filter_False imageI)
  then have "RB_MSG_DONE \<notin> mkind ` set (butlast (ns @ err @ [done_msg]))"
    "length (filter (\<lambda>m. mkind m = RB_MSG_R_ERROR) (ns @ err @ [done_msg])) = (if rc = 0 then 0 else 1)"
    using e(5) chatter_kinds(1) [OF e(1)] by (auto simp: butlast_append)
  moreover have "extends s (ns @ err @ [done_msg]) s'" "pushed s' = pushed s @ ns @ err @ [done_msg]"
    using e(2) by (simp_all add: emits_def extends_def)
  moreover have "rc \<in> {0, -1}" using e(5) by auto
  ultimately show ?thesis using e(3,4) emits_depth [OF e(2)]
    by (intro exI [of _ "ns @ err @ [done_msg]"]) simp
qed

text \<open>C15: If R's calls return (they ask for no input, and \<open>R_ToplevelExec\<close> is there to end a
  jump), \<open>eval_code\<close> returns too, under every schedule of the frontend: no memory error, no
  endless loop, no underflow of the protection stack.\<close>

theorem eval_returns:
  assumes "cooperative api" "live s" "write_console s = Cb_write_console_ex" "R_interrupts_pending s \<noteq> None"
  shows "\<exists>rc s'. eval_code api code s = Some (rc, s') \<and> rc \<in> {0, -1} \<and> live s'"
proof -
  obtain rc s' where r: "eval_code api code s = Some (rc, s')" by (rule eval_code_returns [OF assms])
  show ?thesis by (rule eval_code_emits [OF r assms(2,3)]) (use r emits_live in \<open>auto\<close>)
qed

theorem eval_returns_witness:
  "\<exists>rc s'. eval_code (demo_api False) (bytes ''1+1'') (fresh_bridge [[Ui_interrupt, Ui_has_data]]) = Some (rc, s') \<and>
     rc \<in> {0, -1} \<and> live s'"
  using eval_returns [OF demo_api_cooperative] fresh_bridge_live(1) [of "[[Ui_interrupt, Ui_has_data]]"] by simp

theorem eval_ends_with_done_witness:
  "\<exists>rc s' ms. eval_code (demo_api True) (bytes ''f()'') (fresh_bridge [[Ui_submit (bytes ''x'')]]) = Some (rc, s') \<and>
     pushed s' = ms \<and> extends (fresh_bridge [[Ui_submit (bytes ''x'')]]) ms s' \<and> last ms = Msg RB_MSG_DONE 0 [] \<and>
     last (stream s') = wire_msg (Msg RB_MSG_DONE 0 [])"
proof -
  let ?s = "fresh_bridge [[Ui_submit (bytes ''x'')]]"
  have lv: "live ?s" by (intro fresh_bridge_live) simp
  obtain rc s' where r: "eval_code (demo_api True) (bytes ''f()'') ?s = Some (rc, s')"
    by (rule eval_code_returns [OF demo_api_cooperative lv]) simp_all
  from eval_ends_with_done [OF lv _ r] show ?thesis using r by auto
qed

text \<open>C27: When parsing fails, \<open>eval_code\<close> evaluates nothing: to what R itself printed while
  parsing (\<open>ns\<close>, only messages of callbacks) it adds exactly two messages, the error text for the
  parse status and the end marker, and returns -1. All of it reaches the frontend's stream in
  that order, R's heap stays as the parser left it, and the protection stack is balanced.\<close>

theorem eval_parse_error:
  assumes "live s" "write_console s = Cb_write_console_ex" "R_interrupts_pending s \<noteq> None"
    "alloc (Rf_mkString api code) (s\<lparr>R_interrupts_pending := Some 0\<rparr>) = (x, s1)"
    "exec_parse api x (protect s1) = Some (status, parsed, s2)" "status \<noteq> PARSE_OK"
  shows "\<exists>ns s'. eval_code api code s = Some (-1, s') \<and> pushed s2 = pushed s @ ns \<and>
      pushed s' = pushed s2 @ [Msg RB_MSG_R_ERROR 0 (parse_error_text status), Msg RB_MSG_DONE 0 []] \<and>
      extends s (ns @ [Msg RB_MSG_R_ERROR 0 (parse_error_text status), Msg RB_MSG_DONE 0 []]) s' \<and>
      (\<forall>m \<in> set ns. mkind m \<in> callback_kinds) \<and> r_heap s' = r_heap s2 \<and> protect_depth s' = protect_depth s"
proof -
  let ?m = "Msg RB_MSG_R_ERROR 0 (wire (parse_error_text status))" and ?d = "protect_depth s"
  have w: "wire (parse_error_text status) = parse_error_text status"
    by (intro wire_small) (simp add: parse_error_text_def split: parse_status.splits)
  have "emits s [] ?d (snd (alloc (Rf_mkString api code) (s\<lparr>R_interrupts_pending := Some 0\<rparr>)))"
    by (intro emits_local emits_alloc emits_refl assms(1))
  then have "emits s [] (Suc ?d) (protect s1)" using assms(4) by (auto intro: emits_local)
  from exec_parse_emits [OF assms(5) this assms(2)] obtain ns
    where ns: "chatter ns" "emits s ns (Suc ?d) s2" by auto
  then have "emits s ns (?d + 2) (protect s2)" using emits_local(3) by fastforce
  then obtain t1 t2 where t: "interfere (protect s2) = Some t1"
    "push_str RB_MSG_R_ERROR (parse_error_text status) t1 = Some t2" "emits s (ns @ [?m]) (?d + 2) t2"
    "r_heap t2 = r_heap (protect s2)" by (rule emits_push_str)
  obtain t3 t4 where u: "interfere t2 = Some t3" "push RB_MSG_DONE None 0 t3 = Some t4"
    "emits s ((ns @ [?m]) @ [done_msg]) (?d + 2) t4" "r_heap t4 = r_heap t2" by (rule emits_push [OF t(3)])
  have "eval_code api code s = Some (-1, t4\<lparr>protect_depth := ?d\<rparr>)"
    using assms(3-6) t(1,2) u(1,2) emits_unprotect(1) [OF u(3)] by (auto simp: eval_code_def Let_def)
  moreover have "extends s (ns @ [?m, done_msg]) (t4\<lparr>protect_depth := ?d\<rparr>)" "pushed s2 = pushed s @ ns"
    "pushed t4 = pushed s2 @ [?m, done_msg]"
    using emits_unprotect(2) [OF u(3)] ns(2) u(3) by (simp_all add: emits_def extends_def)
  ultimately show ?thesis
    using w ns(1) t(4) u(4) by (intro exI [of _ ns] exI [of _ "t4\<lparr>protect_depth := ?d\<rparr>"]) (simp add: chatter_def protect_def)
qed

theorem eval_parse_error_witness:
  "\<exists>s'. eval_code (demo_api False) [] (fresh_bridge []) = Some (-1, s') \<and>
     pushed s' = [Msg RB_MSG_R_ERROR 0 (bytes ''Parse error: incomplete expression''), Msg RB_MSG_DONE 0 []] \<and>
     extends (fresh_bridge []) [Msg RB_MSG_R_ERROR 0 (bytes ''Parse error: incomplete expression''), Msg RB_MSG_DONE 0 []] s'"
proof -
  let ?s = "(fresh_bridge [])\<lparr>R_interrupts_pending := Some 0, r_heap := ()\<rparr>"
  have "alloc (Rf_mkString (demo_api False) []) ((fresh_bridge [])\<lparr>R_interrupts_pending := Some 0\<rparr>) = (0, ?s)"
    by (simp add: alloc_def demo_api_def)
  moreover have "exec_parse (demo_api False) 0 (protect ?s) = Some (PARSE_INCOMPLETE, None, protect ?s)"
    by (simp add: exec_parse_def toplevel_exec_def demo_api_def protect_def)
  ultimately show ?thesis
    using eval_parse_error [of "fresh_bridge []" "demo_api False" "[]" 0 ?s PARSE_INCOMPLETE None "protect ?s"]
      fresh_bridge_live(1) [of "[]"]
    by (auto simp: parse_error_text_def protect_def)
qed

subsection \<open>Console input\<close>

text \<open>C24: If the frontend opens the readline gate at any point of its schedule (or has done so),
  \<open>cb_read_console\<close> returns. It pushes exactly one prompt message, writes only inside R's
  buffer of \<open>len\<close> bytes, and R reads there one line \<open>x\<close> and a newline, the line cut to \<open>len - 2\<close>
  bytes. If the frontend stores a line before it opens the gate, as \<open>rffi_submit_readline_input\<close>
  does, \<open>x\<close> is one of the lines \<open>X\<close> it stored (with one line, \<open>X = {x}\<close>, exactly that line),
  however storing and opening interleave with the worker; in any case it is a stored line or,
  if the gate was opened with none stored, empty. The stored line is consumed, and nothing else
  of the worker's state changes.\<close>

theorem readline_answered:
  assumes "live s" "2 \<le> len" "len < 2 ^ 31"
    "readline_gate s \<or> (\<exists>b \<in> set (ui s). Ui_open_readline \<in> set b)"
  shows "\<exists>s' x. cb_read_console prompt len s = Some (take (nat len - 2) x @ [10], s') \<and>
      (\<forall>X. answered_by X s \<longrightarrow> x \<in> X) \<and> (x = [] \<or> x \<in> inputs s) \<and>
      extends s [Msg RB_MSG_READLINE 0 (wire prompt)] s' \<and>
      readline_input_buf s' = None \<and> protect_depth s' = protect_depth s \<and> r_heap s' = r_heap s"
proof -
  obtain s' x where "cb_read_console prompt len s = Some (take (nat len - 2) x @ [10], s')"
    "extends s [Msg RB_MSG_READLINE 0 (wire prompt)] s'" "own s' = own s"
    "x = [] \<or> x \<in> inputs s" "\<forall>X. answered_by X s \<longrightarrow> x \<in> X" "readline_input_buf s' = None"
    by (rule read_console_returns [OF assms, of prompt])
  then show ?thesis by (intro exI [of _ s'] exI [of _ x]) (simp add: own_def steady_def)
qed

theorem readline_answered_witness:
  "\<exists>s'. cb_read_console (bytes ''? '') 5
      (fresh_bridge [[], [Ui_store_readline (bytes ''yesyes'')], [Ui_has_data], [Ui_open_readline]])
    = Some (bytes ''yes'' @ [10], s')"
proof -
  let ?us = "[[], [Ui_store_readline (bytes ''yesyes'')], [Ui_has_data], [Ui_open_readline]]"
  have lv: "live (fresh_bridge ?us)"
    by (intro fresh_bridge_live) (simp add: line_ok_def until_nul_def)
  have "answered_by {bytes ''yesyes''} (fresh_bridge ?us)"
    by (simp add: answered_by_def until_nul_def)
  with readline_answered [OF lv, of 5 "bytes ''? ''"] show ?thesis by fastforce
qed

text \<open>A line submitted while no prompt is open is not lost: the gate stays open, and the next
  prompt is answered with that line at once, without a wait, even if the frontend does nothing
  more.\<close>

theorem readline_typeahead:
  assumes "live s" "ui s = []" "line_ok x" "2 \<le> len" "len < 2 ^ 31"
  shows "\<exists>s'. cb_read_console prompt len (rffi_submit_readline_input x s) = Some (take (nat len - 2) x @ [10], s') \<and>
      \<not> readline_gate s' \<and> readline_input_buf s' = None"
proof -
  let ?s = "rffi_submit_readline_input x s"
  have s: "readline_input_buf ?s = Some x" "readline_gate ?s" "ui ?s = []" "g_rb ?s = g_rb s"
    using assms(2) by (simp_all add: rffi_submit_readline_input_def open_readline_gate_def store_readline_input_def)
  have lv: "live ?s" using assms(1,2,3) s by (simp add: live_def)
  obtain s2 where p: "push_str RB_MSG_READLINE prompt ?s = Some s2" "s2 = ?s\<lparr>g_rb := g_rb s2, pushed := pushed s2\<rparr>"
    by (rule push_str_extends [OF lv])
  have s2: "ui s2 = []" "readline_gate s2" "readline_input_buf s2 = Some x" using s by (subst p(2), simp)+
  then have a: "await readline_gate s2 = Some s2" by (subst await.simps) simp
  have w: "interfere ?s = Some ?s" "interfere s2 = Some s2"
    "interfere (s2\<lparr>readline_gate := False\<rparr>) = Some (s2\<lparr>readline_gate := False\<rparr>)"
    using s(3) s2(1) by (simp_all add: interfere_def)
  have "cb_read_console prompt len ?s
      = Some (take (nat len - 2) x @ [10], s2\<lparr>readline_gate := False, readline_input_buf := None\<rparr>)"
    using cb_read_console_steps [OF w(1) p(1) a w(2,3)] assms(3-5) s2(3) by simp
  then show ?thesis by simp
qed

theorem readline_typeahead_witness:
  "\<exists>s'. cb_read_console (bytes ''> '') 80 (rffi_submit_readline_input (bytes ''ok'') (fresh_bridge []))
     = Some (bytes ''ok'' @ [10], s')"
  using readline_typeahead [OF fresh_bridge_live(1) [of "[]"], of "bytes ''ok''" 80 "bytes ''> ''"]
  by (auto simp: line_ok_def)

subsection \<open>Passthrough\<close>

text \<open>C25: \<open>raoui_enter_passthrough\<close> announces itself with exactly one message and returns if the
  frontend signals the gate at some point of its schedule; on return the gate is closed again,
  so the signal lets one \<open>system()\<close> call proceed.\<close>

theorem passthrough_granted:
  assumes "live s" "passthrough_gate s \<or> (\<exists>b \<in> set (ui s). Ui_signal_passthrough \<in> set b)"
  shows "\<exists>s'. raoui_enter_passthrough s = Some s' \<and> extends s [Msg RB_MSG_PASSTHROUGH 0 []] s' \<and>
      \<not> passthrough_gate s' \<and> protect_depth s' = protect_depth s \<and> r_heap s' = r_heap s"
  by (rule enter_passthrough_returns [OF assms]) (auto simp: own_def steady_def)

theorem passthrough_granted_witness:
  "\<exists>s'. raoui_enter_passthrough (fresh_bridge [[], [Ui_has_data], [Ui_signal_passthrough]]) = Some s' \<and>
     \<not> passthrough_gate s'"
  using passthrough_granted [OF fresh_bridge_live(1) [of "[[], [Ui_has_data], [Ui_signal_passthrough]]"]] by auto

text \<open>C26: The wait in \<open>raoui_enter_passthrough\<close> is real: while the gate is closed and the frontend
  never signals it, the call does not return.\<close>

theorem passthrough_needs_signal:
  assumes "live s" "\<not> passthrough_gate s" "\<forall>b \<in> set (ui s). Ui_signal_passthrough \<notin> set b"
  shows "raoui_enter_passthrough s = None"
proof -
  obtain s1 where s1: "interfere s = Some s1" "idle s s1" "ui s1 = tl (ui s)" by (rule interfere_idle [OF assms(1)])
  obtain s2 where s2: "push RB_MSG_PASSTHROUGH None 0 s1 = Some s2" "extends s1 [Msg RB_MSG_PASSTHROUGH 0 []] s2"
    "s2 = s1\<lparr>g_rb := g_rb s2, pushed := pushed s2\<rparr>" by (rule push_empty_extends [OF idle_live [OF s1(2)]])
  have same: "ui s2 = ui s1" "passthrough_gate s2 = passthrough_gate s1" by (subst s2(3), simp)+
  have "\<not> passthrough_gate s2" "\<forall>b \<in> set (ui s2). Ui_signal_passthrough \<notin> set b"
    using passthrough.interfere_only [OF s1(1) assms(2,3)] same s1(3) assms(3) by (auto dest: in_set_tlD)
  then have "await passthrough_gate s2 = None"
    by (rule passthrough.await_stuck [OF extends_live [OF s2(2)]])
  then show ?thesis using s1(1) s2(1) by (simp add: raoui_enter_passthrough_def)
qed

theorem passthrough_needs_signal_witness:
  "raoui_enter_passthrough (fresh_bridge [[Ui_open_readline], [Ui_has_data]]) = None"
  using passthrough_needs_signal [OF fresh_bridge_live(1) [of "[[Ui_open_readline], [Ui_has_data]]"]] by simp

subsection \<open>Images\<close>

text \<open>C31: An image notice is all or nothing: if the text of its five fields fits the 8192-byte buffer
  with its terminator, exactly that text is pushed; if it does not, nothing is pushed and nothing
  changes.\<close>

theorem emit_image_atomic:
  assumes "live s" "src \<noteq> []" "prev \<noteq> []"
  shows "if length (image_payload src prev mime width height) < 8192
    then \<exists>s'. raoui_emit_image (Some src) (Some prev) width height mime s = Some s' \<and>
      extends s [Msg RB_MSG_IMAGE 0 (image_payload src prev mime width height)] s'
    else raoui_emit_image (Some src) (Some prev) width height mime s = Some s"
  using emit_image_exact [OF assms] by auto

theorem emit_image_atomic_witness:
  "raoui_emit_image (Some (replicate 9000 65)) (Some [66]) [] [] [] (fresh_bridge []) = Some (fresh_bridge [])"
  using emit_image_atomic [OF fresh_bridge_live(1) [of "[]"], of "replicate 9000 65" "[66]" "[]" "[]" "[]"]
  by (simp add: image_payload_def split: if_splits)

subsection \<open>Completions\<close>

text \<open>C28: A completion request evaluates the whole completion code (the 512-byte buffer is large
  enough for every cursor position) and answers with exactly one completions message: to
  what R printed while it evaluated (\<open>ns\<close>, only messages of callbacks) it adds that message and
  no other, with the string R computed, or an empty one if R failed. All of it reaches the
  frontend's stream in that order. No end marker is pushed, and the protection stack is
  balanced.\<close>

theorem completions_answered:
  assumes "cooperative api" "live s" "write_console s = Cb_write_console_ex" "- (2 ^ 31) \<le> pos" "pos < 2 ^ 31"
  shows "\<exists>s1 s2 s' ns result. define_string api (bytes ''.raoui_compl'') line s = Some s1 \<and>
      eval_for_string api (completion_code pos) s1 = Some (result, s2) \<and>
      run_completions api line pos s = Some s' \<and> (\<forall>m \<in> set ns. mkind m \<in> callback_kinds) \<and>
      pushed s2 = pushed s @ ns \<and>
      pushed s' = pushed s2 @ [Msg RB_MSG_COMPLETIONS 0 (wire (case result of None \<Rightarrow> [] | Some x \<Rightarrow> x))] \<and>
      extends s (ns @ [Msg RB_MSG_COMPLETIONS 0 (wire (case result of None \<Rightarrow> [] | Some x \<Rightarrow> x))]) s' \<and>
      protect_depth s' = protect_depth s"
proof -
  obtain s1 s2 s' ns result where r: "define_string api (bytes ''.raoui_compl'') line s = Some s1"
    "eval_for_string api (completion_code pos) s1 = Some (result, s2)" "run_completions api line pos s = Some s'"
    "chatter ns" "emits s (ns @ [Msg RB_MSG_COMPLETIONS 0 (wire (case result of None \<Rightarrow> [] | Some y \<Rightarrow> y))]) (protect_depth s) s'"
    "emits s ns (protect_depth s) s2" by (rule run_completions_emits [OF assms])
  then show ?thesis
    by (intro exI [of _ s1] exI [of _ s2] exI [of _ s'] exI [of _ ns] exI [of _ result])
      (simp add: chatter_def emits_def extends_def emits_depth [OF r(5)] del: bytes_simps)
qed

theorem completions_answered_witness:
  "\<exists>s' ns x. run_completions (demo_api False) (bytes ''prin'') (-1) (fresh_bridge [[Ui_interrupt]]) = Some s' \<and>
     pushed s' = ns @ [Msg RB_MSG_COMPLETIONS 0 x] \<and> protect_depth s' = 0"
  using completions_answered [OF demo_api_cooperative [of False] fresh_bridge_live(1) [of "[[Ui_interrupt]]"], of "-1" "bytes ''prin''"]
  by (auto simp del: bytes_simps)

text \<open>C29: A column request answers in the same way: what R printed meanwhile, then exactly one
  completions message with the string R computed for the object, or an empty one if R failed.\<close>

theorem columns_answered:
  assumes "cooperative api" "live s" "write_console s = Cb_write_console_ex"
  shows "\<exists>s1 s2 s' ns result. define_string api (bytes ''.raoui_column_object'') name s = Some s1 \<and>
      eval_for_string api column_code s1 = Some (result, s2) \<and>
      run_column_completions api name s = Some s' \<and> (\<forall>m \<in> set ns. mkind m \<in> callback_kinds) \<and>
      pushed s2 = pushed s @ ns \<and>
      pushed s' = pushed s2 @ [Msg RB_MSG_COMPLETIONS 0 (wire (case result of None \<Rightarrow> [] | Some x \<Rightarrow> x))] \<and>
      extends s (ns @ [Msg RB_MSG_COMPLETIONS 0 (wire (case result of None \<Rightarrow> [] | Some x \<Rightarrow> x))]) s' \<and>
      protect_depth s' = protect_depth s"
proof -
  obtain s1 s2 s' ns result where r: "define_string api (bytes ''.raoui_column_object'') name s = Some s1"
    "eval_for_string api column_code s1 = Some (result, s2)" "run_column_completions api name s = Some s'"
    "chatter ns" "emits s (ns @ [Msg RB_MSG_COMPLETIONS 0 (wire (case result of None \<Rightarrow> [] | Some y \<Rightarrow> y))]) (protect_depth s) s'"
    "emits s ns (protect_depth s) s2" by (rule run_column_completions_emits [OF assms])
  then show ?thesis
    by (intro exI [of _ s1] exI [of _ s2] exI [of _ s'] exI [of _ ns] exI [of _ result])
      (simp add: chatter_def emits_def extends_def emits_depth [OF r(5)] del: bytes_simps)
qed

theorem columns_answered_witness:
  "\<exists>s' ns x. run_column_completions (demo_api True) (bytes ''df'') (fresh_bridge []) = Some s' \<and>
     pushed s' = ns @ [Msg RB_MSG_COMPLETIONS 0 x] \<and> protect_depth s' = 0"
  using columns_answered [OF demo_api_cooperative [of True] fresh_bridge_live(1) [of "[]"], of "bytes ''df''"]
  by (auto simp del: bytes_simps)

end
