(* ===== verification/Sandbox_Props.thy ===== *)
theory Sandbox_Props
  imports Sandbox_Laws
begin

section \<open>Properties of the Linux sandbox\<close>

text \<open>
  The statements about the file-system domain and the system call filter that a successful
  \<open>raoui_sandbox_apply\<close> leaves in force, with instances on a small file system.
\<close>

subsection \<open>A small kernel\<close>

text \<open>Every absolute path exists and holds no link; the home directory \<open>/home/u\<close> has four
  entries; every system call succeeds.\<close>

definition demo_kernel :: "int \<Rightarrow> unit kernel" where
  "demo_kernel abi = \<lparr>landlock_abi = abi, create_ruleset = (\<lambda>h. 3), add_rule = (\<lambda>h l a. 0), restrict_self = 0,
     set_no_new_privs = 0, set_seccomp = 0,
     resolve = (\<lambda>f p. if p \<noteq> [] \<and> hd p = 47 \<and> 0 \<notin> set p then Some (tokens_from 47 [] p) else None),
     is_directory = (\<lambda>f l. Some True),
     list_directory = (\<lambda>f p. Some (map bytes [''.'', ''..'', ''.ssh'', ''data''])),
     make_directory = (\<lambda>p f. f)\<rparr>"

definition demo_child :: "unit child" where
  "demo_child = \<lparr>files = (), no_new_privs = False, domain = None, seccomp = None\<rparr>"

lemma tokens_from_set: "t \<in> set (tokens_from d cur s) \<Longrightarrow> set t \<subseteq> set cur \<union> set s"
  by (induction d cur s rule: tokens_from.induct) (auto split: if_splits)

lemma demo_resolve_valid: "resolve (demo_kernel abi) f q = Some l \<Longrightarrow> valid_loc l"
  using tokens_from_sound [of _ 47 "[]" q] tokens_from_set [of _ 47 "[]" q]
  by (fastforce simp: demo_kernel_def valid_loc_def split: if_splits)

lemma demo_sandbox_applies:
  "fst (raoui_sandbox_apply (demo_kernel abi) dyn home demo_child) = (if abi < 1 then -1 else 0)"
  by (simp add: raoui_sandbox_apply_def apply_landlock_def apply_seccomp_def demo_kernel_def Let_def split: prod.splits)

subsection \<open>Success means confinement\<close>

text \<open>C17: \<open>raoui_sandbox_apply\<close> returns 0 exactly when the kernel has Landlock and the creation of the
  ruleset, \<open>PR_SET_NO_NEW_PRIVS\<close>, \<open>landlock_restrict_self\<close> and \<open>PR_SET_SECCOMP\<close> succeed; and then
  the child runs with no new privileges, under a Landlock domain that handles every read and
  write right the kernel knows and holds only rules the kernel accepted, and under the seccomp
  filter; otherwise it returns -1 with a reason. The results of \<open>landlock_add_rule\<close> and \<open>mkdir\<close> are
  not looked at: with any of them failing, even all, it still returns 0, contrary to
  \<open>sandbox_linux.h\<close>. That is safe all the same, since a rejected rule only leaves access out.\<close>

theorem sandbox_fail_closed:
  "case raoui_sandbox_apply k dyn home c of (rc, err, c') \<Rightarrow>
     (rc = 0 \<longleftrightarrow> 1 \<le> landlock_abi k \<and> 0 \<le> create_ruleset k (handled_rights k) \<and> set_no_new_privs k = 0 \<and>
        restrict_self k = 0 \<and> set_seccomp k = 0) \<and>
     (if rc = 0 then no_new_privs c' \<and> seccomp c' = Some seccomp_filter \<and>
        (\<exists>rs. domain c' = Some (handled_rights k, rs) \<and> (\<forall>(l, a) \<in> set rs. add_rule k (handled_rights k) l a = 0))
      else rc = -1 \<and> err \<noteq> None)"
proof -
  obtain rc err c1 where l: "apply_landlock k dyn home c = (rc, err, c1)" by (cases "apply_landlock k dyn home c")
  have rc: "rc = 0 \<longleftrightarrow> 1 \<le> landlock_abi k \<and> 0 \<le> create_ruleset k (handled_rights k) \<and> set_no_new_privs k = 0 \<and>
      restrict_self k = 0" "rc \<noteq> 0 \<Longrightarrow> err \<noteq> None"
    using l unfolding apply_landlock_def Let_def by (auto simp del: bytes_simps split: if_splits)
  show ?thesis
  proof (cases "rc = 0")
    case True
    obtain rs where d: "domain c1 = Some (handled_rights k, rs)" "no_new_privs c1"
      by (rule apply_landlock_success [OF l [unfolded True]])
    have "accepted k (handled_rights k, rs)" by (rule apply_landlock_accepted [OF l [unfolded True] d(1)])
    with True l rc d show ?thesis by (simp add: raoui_sandbox_apply_def apply_seccomp_def accepted_def)
  next
    case False
    with l rc show ?thesis by (auto simp: raoui_sandbox_apply_def)
  qed
qed

text \<open>A kernel that refuses to restrict the process, and one that rejects every rule.\<close>

theorem sandbox_fail_closed_witness:
  "fst (raoui_sandbox_apply ((demo_kernel 3)\<lparr>restrict_self := -1\<rparr>) None None demo_child) = -1 \<and>
   (\<exists>err c'. raoui_sandbox_apply ((demo_kernel 3)\<lparr>add_rule := (\<lambda>h l a. -1)\<rparr>) None None demo_child = (0, err, c') \<and>
     domain c' = Some (handled_rights ((demo_kernel 3)\<lparr>add_rule := (\<lambda>h l a. -1)\<rparr>), []))"
proof
  let ?k = "(demo_kernel 3)\<lparr>add_rule := (\<lambda>h l a. -1)\<rparr>"
  show "fst (raoui_sandbox_apply ((demo_kernel 3)\<lparr>restrict_self := -1\<rparr>) None None demo_child) = -1"
    using sandbox_fail_closed [of "(demo_kernel 3)\<lparr>restrict_self := -1\<rparr>" None None demo_child]
    by (auto split: prod.splits if_splits)
  have "1 \<le> landlock_abi ?k \<and> 0 \<le> create_ruleset ?k (handled_rights ?k) \<and> set_no_new_privs ?k = 0 \<and>
      restrict_self ?k = 0 \<and> set_seccomp ?k = 0" by (simp add: demo_kernel_def)
  then obtain err c' rs where r: "raoui_sandbox_apply ?k None None demo_child = (0, err, c')"
    "domain c' = Some (handled_rights ?k, rs)" "\<forall>(l, a) \<in> set rs. add_rule ?k (handled_rights ?k) l a = 0"
    using sandbox_fail_closed [of ?k None None demo_child]
    by (cases "raoui_sandbox_apply ?k None None demo_child") (auto split: if_splits)
  then have "rs = []" by (cases rs) auto
  with r show "\<exists>err c'. raoui_sandbox_apply ?k None None demo_child = (0, err, c') \<and> domain c' = Some (handled_rights ?k, [])"
    by blast
qed

text \<open>The state after success, for the proofs below.\<close>

lemma sandbox_success:
  assumes "raoui_sandbox_apply k dyn home c = (0, err, c')"
  obtains c1 e where "apply_landlock k dyn home c = (0, e, c1)" "domain c' = domain c1" "files c' = files c1"
    "seccomp c' = Some seccomp_filter"
  using assms by (auto simp: raoui_sandbox_apply_def apply_seccomp_def split: prod.splits if_splits)

subsection \<open>Secrets\<close>

text \<open>C4: After a successful \<open>raoui_sandbox_apply\<close> no file in or beneath a credential store of the
  home directory can be read or listed, even if the working directory is the home directory or a
  directory above it. Assumed of the system: resolved paths are canonical; the entries of the
  home directory are not symbolic links; the paths that R reports, the system roots and the home
  directory are shorter than \<open>PATH_MAX\<close> once resolved, and none of the first two lies inside a
  credential store; the scratch directory is neither above nor inside it.\<close>

theorem sandbox_secrets_unreadable:
  fixes k :: "'f kernel"
  assumes "raoui_sandbox_apply k dyn (Some home) c = (0, err, c')" "home \<noteq> []"
    "resolve k (files c) home = Some hl" "length (path_of hl) < PATH_MAX"
    "\<And>q l. resolve k (files c) q = Some l \<Longrightarrow> valid_loc l"
    "\<And>ns n l. list_directory k (files c) home = Some ns \<Longrightarrow> n \<in> set ns \<Longrightarrow> n \<noteq> [46] \<Longrightarrow>
       n \<noteq> [46, 46] \<Longrightarrow> resolve k (files c) (home @ [47] @ n) = Some l \<Longrightarrow> l = hl @ [n]"
    "\<And>q l. q \<in> set SYS_READ_ROOTS \<union> set (strtok_nl (block_of dyn)) \<Longrightarrow> resolve k (files c) q = Some l \<Longrightarrow>
       length (path_of l) < PATH_MAX \<and> \<not> prefix (hl @ [s]) l"
    "\<And>l. resolve k (files c') RUNR_SCRATCH_DIR = Some l \<Longrightarrow> \<not> prefix l (hl @ [s]) \<and> \<not> prefix (hl @ [s]) l"
    "s \<in> set HOME_SECRETS" "prefix (hl @ [s]) p"
    "r = LANDLOCK_ACCESS_FS_READ_FILE \<or> r = LANDLOCK_ACCESS_FS_READ_DIR"
  shows "\<exists>rs. domain c' = Some rs \<and> \<not> allows rs r p"
proof -
  let ?P = "\<lambda>l a. a AND r = 0 \<or> \<not> prefix l p"
  have sec: "is_secret_name s" using assms(9) by (auto simp: is_secret_name_def list_ex_iff)
  obtain c1 e where c1: "apply_landlock k dyn (Some home) c = (0, e, c1)" "domain c' = domain c1" "files c' = files c1"
    by (rule sandbox_success [OF assms(1)])
  have tree: "readable_tree k (files c) ?P FS_READ_RIGHTS (Some home) q"
    if "q \<in> set SYS_READ_ROOTS \<union> set (strtok_nl (block_of dyn))" for q
    by (rule read_tree_spares_secret [OF assms(3,4,2) assms(5,6) _ sec assms(10)]) (use assms(7) [OF that] in blast)+
  have scratch: "grantable k (files c1) ?P (handled_rights k) RUNR_SCRATCH_DIR"
    using assms(8) c1(3) prefix_same_cases [OF _ assms(10)] by (fastforce simp: grantable_def)
  have "LANDLOCK_ACCESS_FS_WRITE_FILE AND r = 0" "(LANDLOCK_ACCESS_FS_WRITE_FILE AND FS_FILE_RIGHTS) AND r = 0"
    using assms(11) by (auto simp: rights_defs)
  then have null: "grantable k (files c1) ?P LANDLOCK_ACCESS_FS_WRITE_FILE (bytes ''/dev/null'')"
    by (auto simp: grantable_def)
  obtain rs where rs: "domain c1 = Some (handled_rights k, rs)" "rules_ok ?P (handled_rights k, rs)"
    by (rule apply_landlock_success [OF c1(1)]) (use tree scratch null in auto)
  have "r AND handled_rights k \<noteq> 0"
    using assms(11) handled_rights_simps(4,5) [of k] by (auto simp: landlock_rights)
  with not_allowed [OF rs(2)] rs(1) c1(2) show ?thesis by auto
qed

definition demo_home :: loc where "demo_home = map bytes [''home'', ''u'']"

definition demo_read_paths :: "string list" where
  "demo_read_paths = [''/opt/R'', ''/home/u'', ''/usr'', ''/lib'', ''/lib64'', ''/bin'', ''/sbin'', ''/etc'', ''/dev'', ''/tmp'']"

lemma demo_paths:
  "\<forall>q \<in> bytes ` set demo_read_paths. \<forall>l. resolve (demo_kernel abi) f q = Some l \<longrightarrow>
     length (path_of l) < PATH_MAX \<and> \<not> prefix (demo_home @ [bytes ''.ssh'']) l"
  by (simp add: demo_read_paths_def demo_kernel_def path_of_def PATH_MAX_def demo_home_def)

lemma demo_resolve_writable:
  "resolve (demo_kernel abi) f RUNR_SCRATCH_DIR = Some (map bytes [''tmp'', ''raoui-sandbox''])"
  "resolve (demo_kernel abi) f (bytes ''/dev/null'') = Some (map bytes [''dev'', ''null''])"
  by (simp_all add: demo_kernel_def RUNR_SCRATCH_DIR_def)

theorem sandbox_secrets_unreadable_witness:
  "\<exists>err c' rs. raoui_sandbox_apply (demo_kernel 3) (Some (bytes ''/opt/R'' @ [10] @ bytes ''/home/u'')) (Some (bytes ''/home/u''))
      demo_child = (0, err, c') \<and> domain c' = Some rs \<and>
    \<not> allows rs LANDLOCK_ACCESS_FS_READ_FILE (demo_home @ map bytes [''.ssh'', ''id_rsa''])"
proof -
  let ?k = "demo_kernel 3" and ?home = "bytes ''/home/u''" and ?dyn = "Some (bytes ''/opt/R'' @ [10] @ bytes ''/home/u'')"
  obtain rc err c' where r: "raoui_sandbox_apply ?k ?dyn (Some ?home) demo_child = (rc, err, c')"
    by (cases "raoui_sandbox_apply ?k ?dyn (Some ?home) demo_child")
  then have "rc = 0" using demo_sandbox_applies [of 3 ?dyn "Some ?home"] by simp
  have paths: "set SYS_READ_ROOTS \<union> set (strtok_nl (block_of ?dyn)) = bytes ` set demo_read_paths"
    by (auto simp: SYS_READ_ROOTS_def strtok_nl_def demo_read_paths_def)
  have "\<exists>rs. domain c' = Some rs \<and>
      \<not> allows rs LANDLOCK_ACCESS_FS_READ_FILE (demo_home @ map bytes [''.ssh'', ''id_rsa''])"
  proof (rule sandbox_secrets_unreadable [where s = "bytes ''.ssh''" and hl = demo_home, OF r [unfolded \<open>rc = 0\<close>]])
    fix q l assume "resolve ?k (files demo_child) q = Some l"
    then show "valid_loc l" by (rule demo_resolve_valid)
  next
    fix q l assume q: "q \<in> set SYS_READ_ROOTS \<union> set (strtok_nl (block_of ?dyn))" "resolve ?k (files demo_child) q = Some l"
    with demo_paths show "length (path_of l) < PATH_MAX \<and> \<not> prefix (demo_home @ [bytes ''.ssh'']) l"
      unfolding paths by blast
  next
    fix l assume "resolve ?k (files c') RUNR_SCRATCH_DIR = Some l"
    then show "\<not> prefix l (demo_home @ [bytes ''.ssh'']) \<and> \<not> prefix (demo_home @ [bytes ''.ssh'']) l"
      by (auto simp: demo_resolve_writable demo_home_def)
  qed (auto simp: demo_kernel_def demo_home_def path_of_def PATH_MAX_def HOME_SECRETS_def)
  with r \<open>rc = 0\<close> show ?thesis by blast
qed

subsection \<open>Writes\<close>

lemma write_bits:
  assumes "r AND FS_WRITE_RIGHTS = r"
  shows "FS_READ_RIGHTS AND r = 0" "(FS_READ_RIGHTS AND FS_FILE_RIGHTS) AND r = 0"
proof -
  have rw: "FS_READ_RIGHTS AND FS_WRITE_RIGHTS = 0" by (simp add: rights_defs)
  have "FS_READ_RIGHTS AND r = (FS_READ_RIGHTS AND FS_WRITE_RIGHTS) AND r"
    using assms by (metis and.assoc and.commute)
  then show r: "FS_READ_RIGHTS AND r = 0" using rw by simp
  show "(FS_READ_RIGHTS AND FS_FILE_RIGHTS) AND r = 0"
    using r by (metis and.assoc and.commute and_zero_eq)
qed

text \<open>C9: After a successful \<open>raoui_sandbox_apply\<close> every write right that the kernel's Landlock
  knows (writing, creating, removing, truncating) is confined: it can be used only at or beneath
  the scratch directory, apart from writing to \<open>/dev/null\<close>. Here the scratch directory and
  \<open>/dev/null\<close> are what those paths resolve to when the rules are added.\<close>

theorem sandbox_writes_confined:
  assumes "raoui_sandbox_apply k dyn home c = (0, err, c')" "r AND FS_WRITE_RIGHTS = r" "r AND handled_rights k \<noteq> 0"
    "domain c' = Some rs" "allows rs r p"
  shows "\<exists>l. prefix l p \<and> (resolve k (files c') RUNR_SCRATCH_DIR = Some l \<or>
      resolve k (files c') (bytes ''/dev/null'') = Some l \<and> LANDLOCK_ACCESS_FS_WRITE_FILE AND r \<noteq> 0)"
proof (rule ccontr)
  assume no: "\<not> ?thesis"
  let ?P = "\<lambda>l a. a AND r = 0 \<or> \<not> prefix l p"
  obtain c1 e where c1: "apply_landlock k dyn home c = (0, e, c1)" "domain c' = domain c1" "files c' = files c1"
    by (rule sandbox_success [OF assms(1)])
  have tree: "readable_tree k (files c) ?P FS_READ_RIGHTS home q" for q
    using write_bits [OF assms(2)] by (auto simp: readable_tree_def grantable_def)
  have scratch: "grantable k (files c1) ?P (handled_rights k) RUNR_SCRATCH_DIR"
    using no c1(3) by (auto simp: grantable_def)
  have "LANDLOCK_ACCESS_FS_WRITE_FILE AND FS_FILE_RIGHTS = LANDLOCK_ACCESS_FS_WRITE_FILE" by (simp add: rights_defs)
  then have null: "grantable k (files c1) ?P LANDLOCK_ACCESS_FS_WRITE_FILE (bytes ''/dev/null'')"
    unfolding grantable_def using no c1(3) by (metis (no_types))
  obtain rs' where rs': "domain c1 = Some (handled_rights k, rs')" "rules_ok ?P (handled_rights k, rs')"
  proof (rule apply_landlock_success [OF c1(1)])
    fix rs' assume d: "domain c1 = Some (handled_rights k, rs')" and
      keep: "\<And>P. \<forall>q \<in> set SYS_READ_ROOTS. readable_tree k (files c) P FS_READ_RIGHTS home q \<Longrightarrow>
        \<forall>d. dyn = Some d \<longrightarrow> (\<forall>q \<in> set (strtok_nl d). readable_tree k (files c) P FS_READ_RIGHTS home q) \<Longrightarrow>
        grantable k (files c1) P (handled_rights k) RUNR_SCRATCH_DIR \<Longrightarrow>
        grantable k (files c1) P LANDLOCK_ACCESS_FS_WRITE_FILE (bytes ''/dev/null'') \<Longrightarrow>
        rules_ok P (handled_rights k, rs')"
    have "rules_ok ?P (handled_rights k, rs')" by (rule keep [OF _ _ scratch null]) (simp_all add: tree)
    with d show thesis by (rule that)
  qed
  with not_allowed [OF rs'(2)] c1(2) assms(3-5) show False by simp
qed

theorem sandbox_writes_confined_witness:
  "\<exists>err c' rs. raoui_sandbox_apply (demo_kernel 3) (Some (bytes ''/home/u'')) None demo_child = (0, err, c') \<and>
     domain c' = Some rs \<and> \<not> allows rs LANDLOCK_ACCESS_FS_WRITE_FILE (demo_home @ [bytes ''x.txt''])"
proof -
  let ?k = "demo_kernel 3"
  obtain rc err c' where r: "raoui_sandbox_apply ?k (Some (bytes ''/home/u'')) None demo_child = (rc, err, c')"
    by (cases "raoui_sandbox_apply ?k (Some (bytes ''/home/u'')) None demo_child")
  then have rc: "rc = 0" using demo_sandbox_applies [of 3 "Some (bytes ''/home/u'')" None] by simp
  obtain c1 e where c1: "apply_landlock ?k (Some (bytes ''/home/u'')) None demo_child = (0, e, c1)" "domain c' = domain c1"
    by (rule sandbox_success [OF r [unfolded rc]])
  obtain rs where rs: "domain c' = Some (handled_rights ?k, rs)"
    by (rule apply_landlock_success [OF c1(1)]) (simp add: c1(2))
  have "\<not> allows (handled_rights ?k, rs) LANDLOCK_ACCESS_FS_WRITE_FILE (demo_home @ [bytes ''x.txt''])"
  proof
    assume "allows (handled_rights ?k, rs) LANDLOCK_ACCESS_FS_WRITE_FILE (demo_home @ [bytes ''x.txt''])"
    from sandbox_writes_confined [OF r [unfolded rc] _ _ rs this]
    obtain l where "prefix l (demo_home @ [bytes ''x.txt''])"
      "l = map bytes [''tmp'', ''raoui-sandbox''] \<or> l = map bytes [''dev'', ''null'']"
      unfolding handled_rights_simps demo_resolve_writable by (auto simp: rights_defs)
    then show False by (auto simp: demo_home_def)
  qed
  with r rc rs show ?thesis by blast
qed

text \<open>C40: On a kernel whose Landlock is older than version 3 truncation is not handled: after a
  successful \<open>raoui_sandbox_apply\<close> the child may truncate any file.\<close>

theorem sandbox_truncate_gap:
  assumes "raoui_sandbox_apply k dyn home c = (0, err, c')" "landlock_abi k < 3"
  shows "\<exists>rs. domain c' = Some rs \<and> allows rs LANDLOCK_ACCESS_FS_TRUNCATE p"
proof -
  obtain c1 e where c1: "apply_landlock k dyn home c = (0, e, c1)" "domain c' = domain c1"
    by (rule sandbox_success [OF assms(1)])
  obtain rs where "domain c' = Some (handled_rights k, rs)"
    by (rule apply_landlock_success [OF c1(1)]) (simp add: c1(2))
  moreover have "LANDLOCK_ACCESS_FS_TRUNCATE AND handled_rights k = 0"
    using assms(2) by (simp add: handled_rights_def rights_defs Let_def)
  ultimately show ?thesis by (auto simp: allows_def)
qed

theorem sandbox_truncate_gap_witness:
  "\<exists>err c' rs. raoui_sandbox_apply (demo_kernel 2) None None demo_child = (0, err, c') \<and>
     domain c' = Some rs \<and> allows rs LANDLOCK_ACCESS_FS_TRUNCATE (demo_home @ [bytes ''x.txt''])"
proof -
  obtain rc err c' where r: "raoui_sandbox_apply (demo_kernel 2) None None demo_child = (rc, err, c')"
    by (cases "raoui_sandbox_apply (demo_kernel 2) None None demo_child")
  then have rc: "rc = 0" using demo_sandbox_applies [of 2 None None] by simp
  from sandbox_truncate_gap [OF r [unfolded rc]] r rc show ?thesis by (auto simp: demo_kernel_def)
qed

subsection \<open>Grants are accepted\<close>

text \<open>C35: On a kernel that accepts a rule whenever it is documented to (a non-empty subset of the
  handled rights, and only file rights on a file that is no directory), no grant of
  \<open>grant_path\<close> is ever rejected: it returns 0 for every path, and an existing path gets exactly
  the requested rights that make sense on it.\<close>

theorem grant_path_accepted:
  assumes "\<And>l a. a AND fst rs = a \<Longrightarrow> a \<noteq> 0 \<Longrightarrow> is_directory k f l = Some True \<or> a AND FS_FILE_RIGHTS = a \<Longrightarrow>
      add_rule k (fst rs) l a = 0"
    "access AND fst rs = access" "\<And>l. resolve k f path = Some l \<Longrightarrow> is_directory k f l \<noteq> None"
  shows "fst (grant_path k f rs path access) = 0 \<and>
    (\<forall>l a. resolve k f path = Some l \<longrightarrow>
      a = (if is_directory k f l = Some True then access else access AND FS_FILE_RIGHTS) \<longrightarrow> a \<noteq> 0 \<longrightarrow>
      snd (grant_path k f rs path access) = (fst rs, snd rs @ [(l, a)]))"
proof (cases "resolve k f path")
  case None
  then show ?thesis by (simp add: grant_path_def)
next
  case (Some l)
  let ?a = "if is_directory k f l = Some False then access AND FS_FILE_RIGHTS else access"
  have d: "is_directory k f l = Some True \<or> is_directory k f l = Some False" using assms(3) [OF Some] by auto
  have sub: "?a AND fst rs = ?a" using assms(2) by (auto simp: and.assoc and.commute and.left_commute)
  have fr: "is_directory k f l = Some True \<or> ?a AND FS_FILE_RIGHTS = ?a" using d by (auto simp: and.assoc)
  have "add_rule k (fst rs) l ?a = 0" if "?a \<noteq> 0" by (rule assms(1) [OF sub that fr])
  with Some d show ?thesis by (auto simp: grant_path_def Let_def)
qed

theorem grant_path_accepted_witness:
  "grant_path ((demo_kernel 3)\<lparr>is_directory := \<lambda>f l. Some False\<rparr>) () (handled_rights (demo_kernel 3), [])
     (bytes ''/etc/passwd'') FS_READ_RIGHTS
   = (0, (handled_rights (demo_kernel 3), [(map bytes [''etc'', ''passwd''], LANDLOCK_ACCESS_FS_READ_FILE)]))"
proof -
  let ?k = "(demo_kernel 3)\<lparr>is_directory := \<lambda>f l. Some False\<rparr>" and ?rs = "(handled_rights (demo_kernel 3), [])"
  have res: "resolve ?k () (bytes ''/etc/passwd'') = Some (map bytes [''etc'', ''passwd''])"
    and k: "\<And>h l a. add_rule ?k h l a = 0" "\<And>f l. is_directory ?k f l = Some False"
    by (simp_all add: demo_kernel_def)
  have a: "FS_READ_RIGHTS AND FS_FILE_RIGHTS = LANDLOCK_ACCESS_FS_READ_FILE" "LANDLOCK_ACCESS_FS_READ_FILE \<noteq> 0"
    by (simp_all add: rights_defs)
  have "fst (grant_path ?k () ?rs (bytes ''/etc/passwd'') FS_READ_RIGHTS) = 0 \<and>
    snd (grant_path ?k () ?rs (bytes ''/etc/passwd'') FS_READ_RIGHTS)
      = (handled_rights (demo_kernel 3), [(map bytes [''etc'', ''passwd''], LANDLOCK_ACCESS_FS_READ_FILE)])"
    using grant_path_accepted [of ?rs ?k "()" FS_READ_RIGHTS "bytes ''/etc/passwd''"] res k a
      handled_rights_simps(1) [of "demo_kernel 3"]
    by (simp del: bytes_simps)
  then show ?thesis by (metis prod.collapse)
qed

subsection \<open>A working directory inside a credential store\<close>

text \<open>C38: The protection of the credential stores does not cover a working directory inside one: a path
  that R reports and that resolves to a location inside a secret directory of the home is granted
  as it is, and everything beneath it can be read.\<close>

theorem sandbox_secret_cwd:
  assumes "resolve k f path = Some l" "is_directory k f l = Some True" "add_rule k (fst rs) l FS_READ_RIGHTS = 0"
    "resolve k f home = Some hl" "valid_loc l" "valid_loc hl" "length (path_of l) < PATH_MAX" "length (path_of hl) < PATH_MAX"
    "home \<noteq> []" "s \<in> set HOME_SECRETS" "prefix (hl @ [s]) l" "prefix l p"
  shows "allows (snd (grant_read_tree k f rs path (Some home) FS_READ_RIGHTS)) LANDLOCK_ACCESS_FS_READ_FILE p"
proof -
  have "\<not> same_path k f path home" "\<not> is_strict_ancestor k f path home"
    using same_path_loc [OF assms(1,4-8)] is_strict_ancestor_loc [OF assms(1,4-8)] assms(11)
    by (auto simp: prefix_def strict_prefix_def)
  then have "grant_read_tree k f rs path (Some home) FS_READ_RIGHTS = (0, (fst rs, snd rs @ [(l, FS_READ_RIGHTS)]))"
    using assms(1-3,9) by (cases home) (auto simp: grant_read_tree_def grant_path_def rights_defs)
  then show ?thesis using assms(12) by (auto simp: allows_def rights_defs)
qed

theorem sandbox_secret_cwd_witness:
  "allows (snd (grant_read_tree (demo_kernel 3) () (handled_rights (demo_kernel 3), []) (bytes ''/home/u/.ssh'')
     (Some (bytes ''/home/u'')) FS_READ_RIGHTS)) LANDLOCK_ACCESS_FS_READ_FILE (demo_home @ map bytes [''.ssh'', ''id_rsa''])"
  using sandbox_secret_cwd [of "demo_kernel 3" "()" "bytes ''/home/u/.ssh''" "demo_home @ [bytes ''.ssh'']"
      "(handled_rights (demo_kernel 3), [])" "bytes ''/home/u''" demo_home "bytes ''.ssh''" "demo_home @ map bytes [''.ssh'', ''id_rsa'']"]
  by (simp add: demo_kernel_def demo_home_def path_of_def PATH_MAX_def HOME_SECRETS_def)

subsection \<open>The system call filter\<close>

text \<open>The filter, instruction by instruction.\<close>

lemma bpf_at:
  assumes "pc < length prog" "prog ! pc = i"
  shows "bpf_run prog d pc a = (case i of
      BPF_LD_ABS off \<Rightarrow> (case seccomp_word d off of None \<Rightarrow> None | Some w \<Rightarrow> bpf_run prog d (pc + 1) w)
    | BPF_JEQ k jt jf \<Rightarrow> bpf_run prog d (pc + 1 + (if a = k then jt else jf)) a
    | BPF_RET r \<Rightarrow> Some r)"
  using assms by (subst bpf_run.simps) simp

lemma seccomp_steps:
  "bpf_run seccomp_filter d 0 a = bpf_run seccomp_filter d 1 (sd_arch d)"
  "bpf_run seccomp_filter d 1 a = (if a = AUDIT_ARCH_X86_64 then bpf_run seccomp_filter d 3 a else bpf_run seccomp_filter d 2 a)"
  "bpf_run seccomp_filter d 2 a = Some SECCOMP_RET_KILL_PROCESS"
  "bpf_run seccomp_filter d 3 a = bpf_run seccomp_filter d 4 (sd_nr d)"
  "bpf_run seccomp_filter d 4 a = (if a = NR_execve then bpf_run seccomp_filter d 5 a else bpf_run seccomp_filter d 6 a)"
  "bpf_run seccomp_filter d 5 a = Some DENY_EACCES"
  "bpf_run seccomp_filter d 6 a = (if a = NR_execveat then bpf_run seccomp_filter d 7 a else bpf_run seccomp_filter d 8 a)"
  "bpf_run seccomp_filter d 7 a = Some DENY_EACCES"
  "bpf_run seccomp_filter d 8 a = (if a = NR_socket then bpf_run seccomp_filter d 9 a else bpf_run seccomp_filter d 12 a)"
  "bpf_run seccomp_filter d 9 a = bpf_run seccomp_filter d 10 (ucast (sd_args d 0))"
  "bpf_run seccomp_filter d 10 a = (if a = AF_UNIX then bpf_run seccomp_filter d 12 a else bpf_run seccomp_filter d 11 a)"
  "bpf_run seccomp_filter d 11 a = Some DENY_EACCES"
  "bpf_run seccomp_filter d 12 a = Some SECCOMP_RET_ALLOW"
  by (subst bpf_at [OF _ refl]; simp add: seccomp_filter_def seccomp_word_def
      OFFSET_nr_def OFFSET_arch_def OFFSET_args0_def eval_nat_numeral)+

text \<open>C10: The seccomp filter, run on any system call, always reaches a verdict, and it is this one:
  a call of a foreign architecture kills the process; \<open>execve\<close> and \<open>execveat\<close> are refused with
  \<open>EACCES\<close>; \<open>socket\<close> is refused so unless the domain (the low 32 bits of its first argument) is
  \<open>AF_UNIX\<close>; everything else is allowed.\<close>

theorem seccomp_filter_meaning:
  "bpf_run seccomp_filter d 0 0 = Some (
     if sd_arch d \<noteq> AUDIT_ARCH_X86_64 then SECCOMP_RET_KILL_PROCESS
     else if sd_nr d = NR_execve \<or> sd_nr d = NR_execveat then DENY_EACCES
     else if sd_nr d = NR_socket \<and> ucast (sd_args d 0) \<noteq> AF_UNIX then DENY_EACCES
     else SECCOMP_RET_ALLOW)"
  unfolding seccomp_steps by auto

end
