(* ===== verification/Run_R_Props.thy ===== *)
theory Run_R_Props
  imports Run_R_Laws Eval_Props Sandbox_Props
begin

section \<open>Properties of sandboxed evaluation\<close>

text \<open>The answer of the parent, the watchdog, and the confinement of the child.\<close>

subsection \<open>The child\<close>

text \<open>A first write of at most \<open>PIPE_BUF\<close> bytes is complete if the process survives it.\<close>

lemma first_write:
  assumes "pipe_write 0 x (s\<lparr>ui := us\<rparr>) = Some s'" "0 + length x \<le> PIPE_BUF"
  shows "runr_pipe s' = runr_pipe s @ x" "r_heap s' = r_heap s"
  using assms by (auto simp: pipe_write_def split: list.splits pipe_answer.splits)

lemma run_child_outcome:
  assumes "live s" "run_child k home api fd code dyn c s = Some (st, s', c')"
  shows "st = 0 \<and> no_new_privs c' \<and> (\<exists>rs. domain c' = Some (handled_rights k, rs)) \<and> seccomp c' = Some seccomp_filter \<and>
      prefix (runr_pipe s) (runr_pipe s') \<and> write_console s' = Cb_runr_capture \<and> protect_depth s' = protect_depth s \<or>
    st = 98 \<and> r_heap s' = r_heap s \<and>
      (\<exists>reason. runr_pipe s' = runr_pipe s @ bytes (''[run_r] sandbox setup failed: '' @ reason) @ [10])"
proof -
  obtain rc err c1 where a: "raoui_sandbox_apply k dyn home c = (rc, err, c1)"
    by (cases "raoui_sandbox_apply k dyn home c")
  show ?thesis
  proof (cases "rc = 0")
    case True
    then obtain l e where l: "apply_landlock k dyn home c = (0, e, l)" "domain c1 = domain l" "no_new_privs c1 = no_new_privs l"
      "seccomp c1 = Some seccomp_filter"
      using a by (auto simp: raoui_sandbox_apply_def apply_seccomp_def split: prod.splits if_splits)
    obtain rs where rs: "domain l = Some (handled_rights k, rs)" "no_new_privs l" by (rule apply_landlock_success [OF l(1)])
    have e: "child_evaluate api fd code (s\<lparr>ui := []\<rparr>) = Some s'" "st = 0" "c' = c1"
      using assms(2) a True by (auto simp: run_child_def)
    have "live (s\<lparr>ui := []\<rparr>)" using assms(1) by (simp add: live_def)
    from child_evaluate_run [OF e(1) this] rs l e(2,3) show ?thesis by (auto simp: child_run_def)
  next
    case False
    let ?m = "bytes (''[run_r] sandbox setup failed: '' @ (case err of None \<Rightarrow> ''unknown'' | Some e \<Rightarrow> e)) @ [10]"
    have short: "length ?m < 256" using sandbox_error_short [OF a] by simp
    then have "snprintf 256 ?m = (length ?m, ?m)" by (rule snprintf_fits)
    moreover have "take (length ?m) (?m @ [0]) = ?m" by simp
    ultimately have "Option.bind (pipe_write 0 ?m (s\<lparr>ui := []\<rparr>)) (\<lambda>s1. Some (98, s1, c1)) = Some (st, s', c')"
      using assms(2) a False short by (simp add: run_child_def Let_def del: bytes_simps take_append)
    then have w: "pipe_write 0 ?m (s\<lparr>ui := []\<rparr>) = Some s'" "st = 98" by (auto simp: bind_eq_Some_conv)
    have fits: "0 + length ?m \<le> PIPE_BUF" using short by (simp add: PIPE_BUF_def)
    from first_write [OF w(1) fits] w(2) show ?thesis by auto
  qed
qed

text \<open>C7: The forked child evaluates code only when it is confined. If it ends with status 0 it has
  no new privileges, a Landlock domain and the seccomp filter in force, R's output was only
  appended to the capture pipe, and the protection stack is balanced. Otherwise it ends with
  status 98 without having called R at all: R's heap is untouched, and the pipe got one line that
  says that the setup failed.\<close>

theorem child_fails_closed:
  assumes "live s" "run_child k home api fd code dyn c s = Some (st, s', c')"
  shows "st = 0 \<and> no_new_privs c' \<and> (\<exists>rs. domain c' = Some (handled_rights k, rs)) \<and> seccomp c' = Some seccomp_filter \<and>
      prefix (runr_pipe s) (runr_pipe s') \<and> write_console s' = Cb_runr_capture \<and> protect_depth s' = protect_depth s \<or>
    st = 98 \<and> r_heap s' = r_heap s \<and>
      (\<exists>reason. runr_pipe s' = runr_pipe s @ bytes (''[run_r] sandbox setup failed: '' @ reason) @ [10])"
  by (rule run_child_outcome [OF assms])

theorem child_fails_closed_witness:
  "\<exists>s' c' reason. run_child (demo_kernel 0) None (demo_api False) 5 (bytes ''1'') None demo_child (fresh_bridge []) = Some (98, s', c') \<and>
     runr_pipe s' = bytes (''[run_r] sandbox setup failed: '' @ reason) @ [10]"
proof -
  let ?r = "run_child (demo_kernel 0) None (demo_api False) 5 (bytes ''1'') None demo_child (fresh_bridge [])"
  obtain s' c' where r: "?r = Some (98, s', c')"
    by (simp add: run_child_def raoui_sandbox_apply_def apply_landlock_def demo_kernel_def snprintf_def pipe_write_def)
  from child_fails_closed [OF fresh_bridge_live(1) [of "[]"] r] r show ?thesis
    by (auto simp: fresh_bridge_def simp del: bytes_simps)
qed

subsection \<open>The parent\<close>

text \<open>C16: The drain loop of \<open>run_r_on_worker\<close> is over by the watchdog's deadline: if some round starts
  30 seconds after the first clock reading or later, the loop ends, without a memory error. If
  the watchdog fired, or the child ends by itself (or the wait fails), the call returns: its
  answer is everything it read from the pipe, in order, then the note on a timeout or a fatal
  signal, then a NUL, and on the ring it leaves nothing but what R printed while the paths were
  gathered. The one other case is a child that never ends by itself although the loop was left
  early, at the end of the pipe or on an error of \<open>poll\<close> or \<open>read\<close>: nobody kills it then,
  and the blocking \<open>waitpid\<close> makes the call wait forever.\<close>

theorem run_r_answers:
  assumes "cooperative api" "live s" "write_console s = Cb_write_console_ex" "pipe_rc os = 0" "0 \<le> fork_rc os"
    "sane_rounds (rounds os)" "\<exists>r \<in> set (rounds os). RUNR_WALL_TIMEOUT_MS \<le> elapsed_ms (start_time os) r"
    "\<And>sig. waited os = Wait_status (Signaled sig) \<Longrightarrow> 0 \<le> sig \<and> sig < 128"
  shows "\<exists>t y. received (start_time os) (rounds os) = Some (t, y) \<and>
      (if t \<or> waited os \<noteq> Wait_blocks
       then \<exists>st b rest s' ns. waitpid_st (waited os) t = Some st \<and> run_r_on_worker api os s = Some (b, t, s') \<and>
         b = y @ exit_note t st @ 0 # rest \<and>
         extends s ns s' \<and> (\<forall>m \<in> set ns. mkind m \<in> callback_kinds) \<and> protect_depth s' = protect_depth s
       else run_r_on_worker api os s = None)"
proof -
  obtain dyn s1 ns where g: "gather_runr_read_paths api s = Some (dyn, s1)" and ns: "chatter ns" "emits s ([] @ ns) (protect_depth s) s1"
    by (rule gather_returns [OF assms(1) emits_refl [OF assms(2)] assms(3)])
  have "signals_ok os" using assms(8) by (simp add: signals_ok_def)
  then obtain t y o2 where ty: "received (start_time os) (rounds os) = Some (t, y)"
    and o2: "drain (start_time os) (rounds os) \<lparr>ob_buf = replicate 8192 0, ob_len = 0, ob_cap = 8192\<rparr> = Some (t, o2)"
    and fin: "\<forall>st. waitpid_st (waited os) t = Some st \<longrightarrow>
      (\<exists>rest. finish_output (exit_note t st) o2 = Some (y @ exit_note t st @ 0 # rest))"
    by (rule drain_ends [OF assms(6) received_by_deadline [OF assms(7)]])
  have r: "run_r_on_worker api os s = Option.bind (waitpid_st (waited os) t)
      (\<lambda>st. Option.bind (finish_output (exit_note t st) o2) (\<lambda>b. Some (b, t, s1)))"
    using assms(4,5) g o2 by (simp add: run_r_on_worker_def)
  have e: "extends s ns s1" "\<forall>m \<in> set ns. mkind m \<in> callback_kinds" "protect_depth s1 = protect_depth s"
    using ns emits_depth [OF ns(2)] by (simp_all add: emits_def chatter_def)
  show ?thesis
  proof (cases "waitpid_st (waited os) t")
    case None
    with ty r waitpid_st_blocks [of "waited os" t] show ?thesis by auto
  next
    case (Some st)
    then obtain rest where "finish_output (exit_note t st) o2 = Some (y @ exit_note t st @ 0 # rest)" using fin by blast
    with r Some have "run_r_on_worker api os s = Some (y @ exit_note t st @ 0 # rest, t, s1)" by simp
    with ty Some e waitpid_st_blocks [of "waited os" t] show ?thesis by auto
  qed
qed

definition demo_os :: os_answers where
  "demo_os = \<lparr>pipe_rc = 0, fork_rc = 77, start_time = (100, 0),
     rounds = [\<lparr>now_sec = 100, now_nsec = 5, polled = Poll_ready, read_back = Read_data (bytes ''ab'')\<rparr>,
       \<lparr>now_sec = 131, now_nsec = 0, polled = Poll_ready, read_back = Read_eof\<rparr>],
     waited = Wait_blocks\<rparr>"

text \<open>A child that hangs: the watchdog kills it, and the wait returns.\<close>

theorem run_r_answers_witness:
  "\<exists>b rest s'. run_r_on_worker (demo_api False) demo_os (fresh_bridge []) = Some (b, True, s') \<and>
     b = bytes ''ab'' @ exit_note True (Signaled SIGKILL) @ 0 # rest"
proof -
  have "sane_rounds (rounds demo_os)" "\<exists>r \<in> set (rounds demo_os). RUNR_WALL_TIMEOUT_MS \<le> elapsed_ms (start_time demo_os) r"
    "received (start_time demo_os) (rounds demo_os) = Some (True, bytes ''ab'')"
    by (simp_all add: sane_rounds_def demo_os_def elapsed_ms_def RUNR_WALL_TIMEOUT_MS_def signed_divide_int_def)
  with run_r_answers [OF demo_api_cooperative [of False] fresh_bridge_live(1) [of "[]"], of demo_os]
  show ?thesis by (auto simp: demo_os_def waitpid_st_def simp del: bytes_simps)
qed

text \<open>The watchdog's clock: with nanoseconds in their range, the elapsed milliseconds differ from the
  true time by less than one millisecond, so the watchdog neither fires more than a
  millisecond early nor late.\<close>

theorem elapsed_ms_accurate:
  assumes "0 \<le> snd t0" "snd t0 < 10 ^ 9" "0 \<le> now_nsec r" "now_nsec r < 10 ^ 9"
  shows "\<bar>elapsed_ms t0 r * 10 ^ 6 - ((now_sec r * 10 ^ 9 + now_nsec r) - (fst t0 * 10 ^ 9 + snd t0))\<bar> < 10 ^ 6"
proof -
  let ?d = "now_nsec r - snd t0"
  have "\<bar>(?d sdiv 1000000) * 1000000 - ?d\<bar> < 1000000"
    by (cases "0 \<le> ?d") (auto simp: signed_divide_int_def sgn_if)
  then show ?thesis by (simp add: elapsed_ms_def algebra_simps)
qed

theorem elapsed_ms_accurate_witness:
  "\<bar>elapsed_ms (5, 999999999) \<lparr>now_sec = 6, now_nsec = 1, polled = Poll_ready, read_back = Read_eof\<rparr> * 10 ^ 6 - 2\<bar> < 10 ^ 6"
  using elapsed_ms_accurate [of "(5, 999999999)" "\<lparr>now_sec = 6, now_nsec = 1, polled = Poll_ready, read_back = Read_eof\<rparr>"]
  by simp

end
