(* ===== verification/Worker_Props.thy ===== *)
theory Worker_Props
  imports Worker_Progress Run_R_Props
begin

section \<open>Properties of the worker thread\<close>

text \<open>The worker's invariant, what its rounds serve and in which order, and the round trip of a
  sandboxed evaluation.\<close>

subsection \<open>The loop\<close>

lemma worker_steps_keep:
  assumes "worker_steps api answers s s'" "at_work s d" "ready s"
  shows "at_work s' d" "ready s'"
proof -
  have "at_work s' d \<and> ready s'"
    using assms
  proof (induction rule: worker_steps.induct)
    case (start s)
    then show ?case by simp
  next
    case (round s s' s'')
    then show ?case using worker_round_at_work ready_rounds.keep_round by blast
  qed
  then show "at_work s' d" "ready s'" by simp_all
qed

text \<open>C3: The worker's invariant: through any number of rounds, whatever the frontend's threads do in
  between and whatever R does in them, the ring stays well-formed, R's console output stays
  routed to it, R's protection stack has the height it had at the start, the interrupt flag stays
  reachable, and the cursor position of a completion request stays a C int.\<close>

theorem worker_invariant:
  assumes "worker_steps api answers s s'" "live s" "write_console s = Cb_write_console_ex" "ready s"
  shows "live s' \<and> write_console s' = Cb_write_console_ex \<and> protect_depth s' = protect_depth s \<and> ready s'"
proof -
  have "at_work s (protect_depth s)" using assms(2,3) by (simp add: at_work_def)
  from worker_steps_keep [OF assms(1) this assms(4)] show ?thesis by (simp add: at_work_def)
qed

lemma fresh_bridge_ready [simp]: "ready (fresh_bridge us)"
  by (simp add: ready_def fresh_bridge_def)

lemma fresh_bridge_slots [simp]:
  "pending_runr (fresh_bridge us) = None" "shutdown_flag (fresh_bridge us) = False"
  "pending_completion_line (fresh_bridge us) = None" "pending_column_object (fresh_bridge us) = None"
  "pending_completion_pos (fresh_bridge us) = 0"
  by (simp_all add: fresh_bridge_def)

lemma fresh_bridge_at_work:
  assumes "\<forall>b \<in> set us. \<forall>a \<in> set b. ui_ok a"
  shows "at_work (fresh_bridge us) 0"
  using fresh_bridge_live(1) [OF assms] by (simp add: at_work_def)

lemma demo_api_well_behaved: "well_behaved (demo_api fails)"
  using demo_api_cooperative by (simp add: well_behaved_def demo_api_def)

lemma demo_os_responsive: "responsive demo_os"
  by (simp add: responsive_def signals_ok_def demo_os_def sane_rounds_def elapsed_ms_def RUNR_WALL_TIMEOUT_MS_def signed_divide_int_def)

theorem worker_invariant_witness:
  "\<exists>s'. worker_steps (demo_api True) (\<lambda>_. demo_os) (fresh_bridge [[Ui_submit (bytes ''stop()'')], [Ui_interrupt]]) s' \<and>
     live s' \<and> protect_depth s' = 0"
proof -
  let ?s = "fresh_bridge [[Ui_submit (bytes ''stop()'')], [Ui_interrupt]]"
  have w: "at_work ?s 0" by (rule fresh_bridge_at_work) simp
  obtain s' where "worker_round (demo_api True) (\<lambda>_. demo_os) ?s = Some s'"
    by (rule worker_round_returns [OF demo_api_well_behaved w fresh_bridge_ready demo_os_responsive])
  then have st: "worker_steps (demo_api True) (\<lambda>_. demo_os) ?s s'"
    by (intro worker_steps.round [OF worker_steps.start]) simp_all
  from worker_invariant [OF st] at_workD [OF w] st show ?thesis by auto
qed

text \<open>C39: The frontend is never told anything that was not said. Through any number of rounds, with any
  interleaving and any behaviour of R, let \<open>ms\<close> be the messages handed to \<open>rb_push\<close> since the state
  \<open>s\<close>. What OCaml has popped followed by what is still in the ring is a subsequence of the same at
  \<open>s\<close> followed by \<open>ms\<close> (each as stored: cut to the ring and flagged if it is larger): no message is
  made up, delivered twice, altered or reordered; messages are only ever missing, when the ring
  overflows or a new command clears it.\<close>

theorem stream_genuine:
  assumes "worker_steps api answers s s'" "live s"
  shows "\<exists>ms. pushed s' = pushed s @ ms \<and>
    subseq (frontend_log s' @ map wire_msg (rb_msgs (g_rb s')))
      (frontend_log s @ map wire_msg (rb_msgs (g_rb s)) @ map (wire_msg \<circ> stored cap) ms)"
  using stream_rounds.keep_rounds [OF assms(1) since_refl [OF assms(2)]] by (simp add: since_def stream_def)

theorem stream_genuine_witness:
  "\<exists>s'. worker_steps (demo_api False) (\<lambda>_. demo_os) (fresh_bridge [[Ui_submit (bytes ''1'')], [Ui_has_data]]) s' \<and>
     subseq (frontend_log s' @ map wire_msg (rb_msgs (g_rb s'))) (map (wire_msg \<circ> stored cap) (pushed s'))"
proof -
  let ?s = "fresh_bridge [[Ui_submit (bytes ''1'')], [Ui_has_data]]"
  have u: "\<forall>b \<in> set [[Ui_submit (bytes ''1'')], [Ui_has_data]]. \<forall>a \<in> set b. ui_ok a" by simp
  obtain s' where "worker_round (demo_api False) (\<lambda>_. demo_os) ?s = Some s'"
    by (rule worker_round_returns [OF demo_api_well_behaved fresh_bridge_at_work [OF u] fresh_bridge_ready demo_os_responsive])
  then have st: "worker_steps (demo_api False) (\<lambda>_. demo_os) ?s s'"
    by (intro worker_steps.round [OF worker_steps.start]) simp_all
  from stream_genuine [OF st fresh_bridge_live(1) [OF u]] st show ?thesis
    using fresh_bridge_live(2) [OF u] by (auto simp del: bytes_simps)
qed

text \<open>C12: The worker never gets stuck: if R's calls end without asking for input, event handlers included,
  and the operating system is \<open>responsive\<close> (it answers within the watchdog's reach, and a child that
  the watchdog does not kill ends by itself), every state the worker reaches has a next round,
  under every schedule of the frontend's threads.\<close>

theorem worker_never_stuck:
  assumes "worker_steps api answers s s'" "live s" "write_console s = Cb_write_console_ex" "ready s"
    "well_behaved api" "\<And>code. responsive (answers code)"
  shows "\<exists>s''. worker_round api answers s' = Some s''"
proof -
  have "at_work s (protect_depth s)" using assms(2,3) by (simp add: at_work_def)
  note w = worker_steps_keep [OF assms(1) this assms(4)]
  show ?thesis by (rule worker_round_returns [where answers = answers, OF assms(5) w assms(6)]) blast
qed

theorem worker_never_stuck_witness:
  "\<exists>s''. worker_round (demo_api True) (\<lambda>_. demo_os) (fresh_bridge [[Ui_post_runr (bytes ''1'')], [Ui_interrupt]]) = Some s''"
proof -
  let ?s = "fresh_bridge [[Ui_post_runr (bytes ''1'')], [Ui_interrupt]]"
  have "at_work ?s 0" by (rule fresh_bridge_at_work) simp
  from worker_never_stuck [OF worker_steps.start at_workD(1,2) [OF this] fresh_bridge_ready demo_api_well_behaved demo_os_responsive]
  show ?thesis .
qed

subsection \<open>What a round serves\<close>

text \<open>C5: A round serves the request slots as the abstract machine \<open>serve_next\<close> does, if no new request
  arrives during it: a command first (dropping the completion and column requests it makes stale,
  keeping a sandboxed evaluation), else a sandboxed evaluation (whose answer is stored and
  flagged, the rest kept), else a completion, else a column request. R's calls are assumed to
  end and the operating system to be \<open>responsive\<close>.\<close>

theorem worker_round_refines:
  assumes "live s" "write_console s = Cb_write_console_ex" "ready s" "calm s" "well_behaved api"
    "\<And>code. responsive (answers code)"
  shows "\<exists>s'. worker_round api answers s = Some s' \<and> calm s' \<and>
    requests s' = serve_next (runr_reply \<circ> answers) (requests s)"
proof -
  have "on_duty (protect_depth s) s" using assms(1-4) by (simp add: on_duty_def at_work_def)
  then show ?thesis by (rule worker_round_step [OF assms(5,6)]) (auto simp: on_duty_def)
qed

theorem worker_round_refines_witness:
  "\<exists>s'. worker_round (demo_api False) (\<lambda>_. demo_os) (rffi_request_completions (bytes ''pr'') 2 (rffi_submit (bytes ''1'') (fresh_bridge [[Ui_interrupt]]))) = Some s' \<and>
     pending_cmd s' = None \<and> pending_completion_line s' = None"
proof -
  let ?s = "rffi_request_completions (bytes ''pr'') 2 (rffi_submit (bytes ''1'') (fresh_bridge [[Ui_interrupt]]))"
  have s: "live ?s" "write_console ?s = Cb_write_console_ex" "ready ?s" "calm ?s"
    using fresh_bridge_live(1) [of "[[Ui_interrupt]]"]
    by (simp_all add: rffi_request_completions_def rffi_submit_def live_def ready_def calm_def)
  from worker_round_refines [OF s demo_api_well_behaved demo_os_responsive] obtain s'
    where s': "worker_round (demo_api False) (\<lambda>_. demo_os) ?s = Some s'" "requests s' = serve_next (runr_reply \<circ> (\<lambda>_. demo_os)) (requests ?s)"
    by blast
  have "sl_cmd (requests s') = None" "sl_line (requests s') = None"
    unfolding s'(2) by (simp_all add: serve_next_def rffi_request_completions_def rffi_submit_def)
  with s'(1) show ?thesis by auto
qed

text \<open>C18: No request starves: once requests stop arriving, three rounds empty all slots, and if a sandboxed
  evaluation was among them it has been answered. R's calls are assumed to end and the operating
  system to be \<open>responsive\<close>.\<close>

theorem worker_drains:
  assumes "live s" "write_console s = Cb_write_console_ex" "ready s" "calm s" "well_behaved api"
    "\<And>code. responsive (answers code)"
  shows "\<exists>s1 s2 s3. worker_round api answers s = Some s1 \<and> worker_round api answers s1 = Some s2 \<and>
    worker_round api answers s2 = Some s3 \<and> nothing_pending s3 \<and>
    (\<forall>code. pending_runr s = Some code \<longrightarrow> runr_done s3 \<and> runr_result s3 = Some (runr_reply (answers code)))"
proof -
  let ?f = "serve_next (runr_reply \<circ> answers)"
  have d: "on_duty (protect_depth s) s" using assms(1-4) by (simp add: on_duty_def at_work_def)
  obtain s1 where s1: "worker_round api answers s = Some s1" "on_duty (protect_depth s) s1" "requests s1 = ?f (requests s)"
    by (rule worker_round_step [OF assms(5,6) d])
  obtain s2 where s2: "worker_round api answers s1 = Some s2" "on_duty (protect_depth s) s2" "requests s2 = ?f (requests s1)"
    by (rule worker_round_step [OF assms(5,6) s1(2)])
  obtain s3 where s3: "worker_round api answers s2 = Some s3" "requests s3 = ?f (requests s2)"
    by (rule worker_round_step [OF assms(5,6) s2(2)])
  have q: "requests s3 = ?f (?f (?f (requests s)))" using s1(3) s2(3) s3(2) by simp
  have "nothing_pending s3"
    using serve_next_thrice(1-4) [of "runr_reply \<circ> answers" "requests s"] unfolding q [symmetric] by (simp add: nothing_pending_def)
  moreover have "runr_done s3 \<and> runr_result s3 = Some (runr_reply (answers code))" if "pending_runr s = Some code" for code
    using serve_next_thrice(5) [of "requests s" code "runr_reply \<circ> answers"] that unfolding q [symmetric] by simp
  ultimately show ?thesis using s1(1) s2(1) s3(1) by blast
qed

theorem worker_drains_witness:
  "\<exists>s1 s2 s3. worker_round (demo_api False) (\<lambda>_. demo_os) (runr_post (bytes ''1'') (fresh_bridge [])) = Some s1 \<and>
     worker_round (demo_api False) (\<lambda>_. demo_os) s1 = Some s2 \<and> worker_round (demo_api False) (\<lambda>_. demo_os) s2 = Some s3 \<and>
     runr_result s3 = Some (runr_reply demo_os)"
proof -
  let ?s = "runr_post (bytes ''1'') (fresh_bridge [])"
  have s: "live ?s" "write_console ?s = Cb_write_console_ex" "ready ?s" "calm ?s" "pending_runr ?s = Some (bytes ''1'')"
    using fresh_bridge_live(1) [of "[]"]
    by (simp_all add: runr_post_def live_def ready_def calm_def)
  from worker_drains [OF s(1-4) demo_api_well_behaved demo_os_responsive] s(5) show ?thesis by blast
qed

text \<open>C19: A command that the worker takes from its slot is evaluated on an empty ring: what earlier commands
  left undelivered is discarded, so all that the frontend reads after that point belongs to this
  command, and it ends with the end marker.\<close>

theorem command_served:
  assumes "live s" "write_console s = Cb_write_console_ex" "ready s" "well_behaved api"
  shows "\<exists>s2 s3 s' rc ms. interfere (s\<lparr>pending_cmd := None, pending_completion_line := None, pending_column_object := None\<rparr>) = Some s2 \<and>
    rffi_rb_reset s2 = Some s3 \<and> rb_msgs (g_rb s3) = [] \<and> frontend_log s3 = frontend_log s2 \<and>
    eval_code api code s3 = Some (rc, s') \<and> serve_command api code s = Some s' \<and>
    extends s3 (ms @ [Msg RB_MSG_DONE 0 []]) s' \<and> last (stream s') = wire_msg (Msg RB_MSG_DONE 0 []) \<and>
    protect_depth s' = protect_depth s"
proof -
  have w: "at_work s (protect_depth s)" using assms(1,2) by (simp add: at_work_def)
  obtain s' where s': "serve_command api code s = Some s'" using serve_command_returns [OF assms(4) w assms(3)] by blast
  obtain s2 s3 ms rc where st: "interfere (s\<lparr>pending_cmd := None, pending_completion_line := None, pending_column_object := None\<rparr>) = Some s2"
    "rffi_rb_reset s2 = Some s3" "rb_msgs (g_rb s3) = []" "frontend_log s3 = frontend_log s2" "eval_code api code s3 = Some (rc, s')"
    "emits s3 (ms @ [done_msg]) (protect_depth s) s'" "last (stream s') = wire_msg done_msg"
    by (rule serve_command_done [OF s' w])
  from st s' show ?thesis
    by (intro exI [of _ s2] exI [of _ s3] exI [of _ s'] exI [of _ rc] exI [of _ ms]) (simp add: emits_def emits_depth [OF st(6)])
qed

theorem command_served_witness:
  "\<exists>s'. serve_command (demo_api False) (bytes ''1'') (fresh_bridge [[Ui_has_data]]) = Some s' \<and>
     last (stream s') = wire_msg (Msg RB_MSG_DONE 0 [])"
  using command_served [OF fresh_bridge_live(1) [of "[[Ui_has_data]]"] _ fresh_bridge_ready demo_api_well_behaved, of False "bytes ''1''"]
  by auto

subsection \<open>Sandboxed evaluation, end to end\<close>

lemma run_r_sandboxed_reply:
  assumes "live s" "write_console s = Cb_write_console_ex" "ready s" "calm s" "\<not> shutdown_flag s" "well_behaved api"
    "\<And>code. responsive (answers code)"
  shows "\<exists>s'. caml_rffi_run_r_sandboxed api answers v_code s = Some (runr_reply (answers (until_nul v_code)), s') \<and>
    pending_runr s' = None \<and> pending_cmd s' = None \<and> runr_result s' = None"
proof -
  let ?s = "runr_post (until_nul v_code) s"
  have d: "on_duty (protect_depth s) ?s"
    using assms(1-4) by (simp add: on_duty_def at_work_def runr_post_def live_def ready_def calm_def)
  have p: "pending_runr ?s = Some (until_nul v_code)" "\<not> shutdown_flag ?s" "\<not> runr_done ?s" using assms(5) by (simp_all add: runr_post_def)
  obtain s1 where "runr_wait api answers ?s = Some s1" "runr_done s1" "runr_result s1 = Some (runr_reply (answers (until_nul v_code)))"
    "pending_runr s1 = None" "pending_cmd s1 = None"
    by (rule runr_wait_answer [OF assms(6,7) d p])
  then show ?thesis
    by (simp add: caml_rffi_run_r_sandboxed_def rffi_run_r_sandboxed_def runr_collect_def)
qed

text \<open>C11: If R's calls end and the operating system is \<open>responsive\<close>, a call of \<open>rffi_run_r_sandboxed\<close> from
  OCaml returns, even if a command is waiting ahead of it, and
  its result is the answer to exactly the code it passed (up to a NUL byte): what the child wrote
  to the pipe and the note on its end, or the text of the failing system call. Both request slots
  are empty afterwards.\<close>

theorem run_r_roundtrip:
  assumes "live s" "write_console s = Cb_write_console_ex" "ready s" "calm s" "\<not> shutdown_flag s" "well_behaved api"
    "\<And>code. responsive (answers code)"
  shows "\<exists>s'. caml_rffi_run_r_sandboxed api answers v_code s = Some (runr_reply (answers (until_nul v_code)), s') \<and>
    pending_runr s' = None \<and> pending_cmd s' = None \<and> runr_result s' = None"
  by (rule run_r_sandboxed_reply [OF assms])

theorem run_r_roundtrip_witness:
  "\<exists>s'. caml_rffi_run_r_sandboxed (demo_api False) (\<lambda>_. demo_os) (bytes ''x'') (rffi_submit (bytes ''1'') (fresh_bridge [])) =
     Some (bytes ''ab'' @ exit_note True (Signaled 9), s')"
proof -
  let ?s = "rffi_submit (bytes ''1'') (fresh_bridge [])"
  have s: "live ?s" "write_console ?s = Cb_write_console_ex" "ready ?s" "calm ?s" "\<not> shutdown_flag ?s"
    using fresh_bridge_live(1) [of "[]"] by (simp_all add: rffi_submit_def live_def ready_def calm_def)
  have "decimal 30 = ''30''" by code_simp
  then have "0 \<notin> set (exit_note True (Signaled 9))"
    by (simp add: exit_note_def em_dash_def RUNR_WALL_TIMEOUT_MS_def signed_divide_int_def)
  then have "runr_reply demo_os = bytes ''ab'' @ exit_note True (Signaled 9)"
    by (simp add: runr_reply_def waitpid_st_def SIGKILL_def demo_os_def elapsed_ms_def RUNR_WALL_TIMEOUT_MS_def signed_divide_int_def)
  with run_r_roundtrip [OF s demo_api_well_behaved demo_os_responsive, of False "bytes ''x''"] show ?thesis by auto
qed

text \<open>C37: The timed wait of an idle worker has a valid deadline, exactly 100 milliseconds after the time of
  day: the nanoseconds are normalised for every reading of the clock.\<close>

theorem wait_deadline_valid:
  assumes "0 \<le> tv_usec" "tv_usec < 10 ^ 6"
  shows "case wait_deadline tv_sec tv_usec of (sec, nsec) \<Rightarrow> 0 \<le> nsec \<and> nsec < 10 ^ 9 \<and>
    sec * 10 ^ 9 + nsec = (tv_sec * 10 ^ 6 + tv_usec) * 10 ^ 3 + 10 ^ 8"
  using assms by (auto simp: wait_deadline_def Let_def algebra_simps)

theorem wait_deadline_valid_witness:
  "wait_deadline 7 950000 = (8, 50000000) \<and>
   (case wait_deadline 7 950000 of (sec, nsec) \<Rightarrow> sec * 10 ^ 9 + nsec = (7 * 10 ^ 6 + 950000) * 10 ^ 3 + 10 ^ 8)"
  using wait_deadline_valid [of 950000 7] by (simp add: wait_deadline_def)

end
