(* ===== verification/Startup_Props.thy ===== *)
theory Startup_Props
  imports Startup Worker_Props
begin

section \<open>Properties of startup and shutdown\<close>

text \<open>When \<open>rffi_start\<close> succeeds and what it establishes, the captured startup output, and the
  end of a session.\<close>

subsection \<open>A small installation\<close>

text \<open>Everything is there, and the profile prints \<open>hello\<close>.\<close>

definition demo_boot :: "bool \<Rightarrow> unit boot" where
  "demo_boot complete = \<lparr>dlopen = (\<lambda>_. True), dlsym = (\<lambda>n. complete \<or> n \<noteq> ''R_tryEval''),
     write_R_variable = (\<lambda>_ _ h. h), initialize_R = (\<lambda>_ _ h. h),
     setup_Rmainloop = (\<lambda>h. R_write (bytes ''hel'') 0 (R_flush (R_write (bytes ''lo'') 1 (R_return () h)))),
     install_symbol = (\<lambda>_ h. h), registerRoutines = (\<lambda>_ h. h),
     ring_block = (\<lambda>n. Some (replicate n 0)), mutex_init_rc = 0, setstacksize_rc = 0, thread_starts = True\<rparr>"

lemma demo_boot_simps [simp]:
  "thread_starts (demo_boot c)" "ring_block (demo_boot c) n = Some b \<Longrightarrow> length b = n"
  "startup_text (setup_Rmainloop (demo_boot c) h) = Some (bytes ''hello'')"
  "bootable (demo_boot True) home" "\<not> bootable (demo_boot False) home"
  by (auto simp: demo_boot_def bootable_def required_symbols_def)

subsection \<open>Startup\<close>

text \<open>C20: If the ring can be allocated, the stack size is accepted, libR opens and has all required
  symbols, and \<open>setup_Rmainloop\<close> runs to its end, then initialisation returns 0 from the program's
  initial state, and leaves the state in which the worker's invariant starts: a well-formed ring,
  console output routed to it, the interrupt flag reachable, a balanced protection stack, no
  request pending.\<close>

theorem startup_ready:
  assumes "bootable bt (until_nul v_r_home)" "thread_starts bt" "\<And>n b. ring_block bt n = Some b \<Longrightarrow> length b = n"
    "startup_text (setup_Rmainloop bt (boot_heap bt (until_nul v_r_home) h)) = Some y" "length y < 2 ^ 62"
    "\<forall>b \<in> set us. \<forall>a \<in> set b. ui_ok a \<and> calm_action a"
  shows "\<exists>s. caml_rffi_init bt v_r_home (program_start h us) = Some (0, s) \<and> live s \<and>
    write_console s = Cb_write_console_ex \<and> ready s \<and> protect_depth s = 0 \<and> nothing_pending s \<and> \<not> shutdown_flag s \<and> calm s"
  by (rule rffi_start_settled [OF assms]) (auto simp: caml_rffi_init_def at_work_def)

theorem startup_ready_witness:
  "\<exists>s. caml_rffi_init (demo_boot True) (bytes ''/usr/lib/R'') (program_start () [[Ui_has_data]]) = Some (0, s) \<and> live s"
  using startup_ready [of "demo_boot True" "bytes ''/usr/lib/R''" "()" "bytes ''hello''" "[[Ui_has_data]]"] by auto

text \<open>C21: Initialisation returns -1 exactly when something it needs is missing: the memory or the mutex of
  the ring, the stack size, libR, or one of its required symbols (an optional one may be
  missing). R has not run then: its heap is untouched.\<close>

theorem startup_errors:
  assumes "thread_starts bt"
  shows "((\<exists>s'. rffi_start bt r_home s = Some (-1, s')) \<longleftrightarrow> \<not> bootable bt r_home) \<and>
    (\<forall>s'. rffi_start bt r_home s = Some (-1, s') \<longrightarrow> r_heap s' = r_heap s)"
proof (cases "bootable bt r_home")
  case False
  obtain s' where "rffi_start bt r_home s = Some (-1, s')" "r_heap s' = r_heap s" by (rule rffi_start_fails [OF assms False])
  with False show ?thesis by simp
next
  case True
  then have "\<nexists>s'. rffi_start bt r_home s = Some (-1, s')" by (rule rffi_start_bootable [OF _ assms])
  with True show ?thesis by blast
qed

theorem startup_errors_witness:
  "\<exists>s'. rffi_start (demo_boot False) [] (program_start () []) = Some (-1, s')"
  using startup_errors [of "demo_boot False" "[]" "program_start () []"] by simp

text \<open>C22: What R prints while it starts is handed over exactly once and complete: after a successful
  initialisation the first \<open>take_init_output\<close> from OCaml returns all of it (up to a NUL byte), whatever the
  sizes of the pieces, and the next one returns nothing.\<close>

theorem init_output_once:
  assumes "bootable bt (until_nul v_r_home)" "thread_starts bt" "\<And>n b. ring_block bt n = Some b \<Longrightarrow> length b = n"
    "startup_text (setup_Rmainloop bt (boot_heap bt (until_nul v_r_home) h)) = Some y" "length y < 2 ^ 62"
    "\<forall>b \<in> set us. \<forall>a \<in> set b. ui_ok a"
  shows "\<exists>s s1 s2. caml_rffi_init bt v_r_home (program_start h us) = Some (0, s) \<and>
    caml_rffi_take_init_output s = Some (until_nul y, s1) \<and> caml_rffi_take_init_output s1 = Some ([], s2)"
proof -
  obtain s where s: "rffi_start bt (until_nul v_r_home) (program_start h us) = Some (0, s)" "captured s y"
    by (rule rffi_start_ok [OF assms])
  let ?s1 = "s\<lparr>init_output_buf := None, init_output_len := 0, init_output_cap := 0\<rparr>"
  have "caml_rffi_take_init_output s = Some (until_nul y, ?s1)"
    using s(2) by (auto simp: captured_def caml_rffi_take_init_output_def rffi_take_init_output_def c_str_append_nul
        split: option.splits)
  moreover have "\<exists>s2. caml_rffi_take_init_output ?s1 = Some ([], s2)"
    by (simp add: caml_rffi_take_init_output_def rffi_take_init_output_def)
  ultimately show ?thesis using s(1) by (auto simp: caml_rffi_init_def)
qed

theorem init_output_once_witness:
  "\<exists>s s1. caml_rffi_init (demo_boot True) [] (program_start () []) = Some (0, s) \<and>
     caml_rffi_take_init_output s = Some (bytes ''hello'', s1)"
  using init_output_once [of "demo_boot True" "[]" "()" "bytes ''hello''" "[]"] by auto

subsection \<open>Shutdown\<close>

text \<open>C23: A session comes to its end: after a successful initialisation a sandboxed evaluation from OCaml is
  answered, and shutting down then returns, whether or not the worker is in the middle of a
  round, with the ring's memory and mutex released; a later pop finds nothing. R's calls
  are assumed to end and the operating system to be \<open>responsive\<close>.\<close>

theorem session_lifecycle:
  assumes "bootable bt (until_nul v_r_home)" "thread_starts bt" "\<And>n b. ring_block bt n = Some b \<Longrightarrow> length b = n"
    "startup_text (setup_Rmainloop bt (boot_heap bt (until_nul v_r_home) h)) = Some y" "length y < 2 ^ 62"
    "\<forall>b \<in> set us. \<forall>a \<in> set b. ui_ok a \<and> calm_action a" "well_behaved api" "\<And>code. responsive (answers code)"
  shows "\<exists>s s1 s2. caml_rffi_init bt v_r_home (program_start h us) = Some (0, s) \<and>
    caml_rffi_run_r_sandboxed api answers v_code s = Some (runr_reply (answers (until_nul v_code)), s1) \<and>
    caml_rffi_shutdown api answers busy s1 = Some s2 \<and> rbuf (g_rb s2) = None \<and> rlock (g_rb s2) = Mutex_none \<and>
    caml_rffi_rb_pop (Some buf) s2 = Some (None, s2)"
proof -
  obtain s where s: "rffi_start bt (until_nul v_r_home) (program_start h us) = Some (0, s)" "at_work s 0" "ready s"
    and q: "calm s" "nothing_pending s" "\<not> shutdown_flag s" by (rule rffi_start_settled [OF assms(1-6)])
  let ?r = "runr_post (until_nul v_code) s"
  have d: "on_duty 0 ?r" using s(2,3) q(1) by (simp add: on_duty_def runr_post_def)
  have r: "pending_runr ?r = Some (until_nul v_code)" "\<not> shutdown_flag ?r" "\<not> runr_done ?r" using q(3) by (simp_all add: runr_post_def)
  obtain s1 where s1: "runr_wait api answers ?r = Some s1" "runr_done s1" "runr_result s1 = Some (runr_reply (answers (until_nul v_code)))"
    "on_duty 0 s1" by (rule runr_wait_answer [OF assms(7,8) d r])
  let ?s1 = "s1\<lparr>runr_result := None\<rparr>"
  have w: "at_work ?s1 0" "ready ?s1" using s1(4) by (simp_all add: on_duty_def)
  obtain s2 rb where s2: "rffi_shutdown api answers busy ?s1 = Some (s2\<lparr>g_rb := rb\<rparr>)" "rb_deinit (Some (g_rb s2)) = Some (Some rb)"
    by (rule rffi_shutdown_ok [where busy = busy, OF assms(7,8) w])
  have rb: "rbuf rb = None" "rlock rb = Mutex_none" using s2(2) by (auto simp: rb_deinit_def split: if_splits)
  then have pop: "caml_rffi_rb_pop (Some buf) (s2\<lparr>g_rb := rb\<rparr>) = Some (None, s2\<lparr>g_rb := rb\<rparr>)"
    by (simp add: caml_rffi_rb_pop_def rffi_rb_pop_def rb_pop_def RB_EMPTY_def RB_ERROR_def)
  show ?thesis
    using s(1) s1(1-3) s2(1) rb pop
    by (simp add: caml_rffi_init_def caml_rffi_run_r_sandboxed_def rffi_run_r_sandboxed_def runr_collect_def caml_rffi_shutdown_def)
qed

theorem session_lifecycle_witness:
  "\<exists>s s1 s2. caml_rffi_init (demo_boot True) [] (program_start () []) = Some (0, s) \<and>
     caml_rffi_run_r_sandboxed (demo_api False) (\<lambda>_. demo_os) (bytes ''1'') s = Some (runr_reply demo_os, s1) \<and>
     caml_rffi_shutdown (demo_api False) (\<lambda>_. demo_os) True s1 = Some s2"
proof -
  have "\<exists>s s1 s2. caml_rffi_init (demo_boot True) [] (program_start () []) = Some (0, s) \<and>
     caml_rffi_run_r_sandboxed (demo_api False) (\<lambda>_. demo_os) (bytes ''1'') s = Some (runr_reply demo_os, s1) \<and>
     caml_rffi_shutdown (demo_api False) (\<lambda>_. demo_os) True s1 = Some s2 \<and> rbuf (g_rb s2) = None \<and> rlock (g_rb s2) = Mutex_none \<and>
     caml_rffi_rb_pop (Some []) s2 = Some (None, s2)"
    by (rule session_lifecycle [where y = "bytes ''hello''"]) (simp_all add: demo_api_well_behaved demo_os_responsive)
  then show ?thesis by blast
qed

text \<open>A sandboxed evaluation requested after the shutdown flag is set is never answered: the caller waits
  for a worker that has left its loop.\<close>

lemma runr_lost_on_shutdown:
  "shutdown_flag s \<Longrightarrow> caml_rffi_run_r_sandboxed api answers v_code s = None"
  by (simp add: caml_rffi_run_r_sandboxed_def rffi_run_r_sandboxed_def runr_wait.simps runr_post_def)

end
