(* ===== verification/Crash_Log.thy ===== *)
theory Crash_Log
  imports C_Prelude
begin

section \<open>The crash log\<close>

text \<open>
  \<open>c_ffi/load_r.c\<close>, section ``Crash logging'', and its OCaml stub: the handler for fatal
  signals, which may use only async-signal-safe calls and therefore formats its line by hand. The
  results of \<open>open\<close> and \<open>write\<close> are arguments.
\<close>

subsection \<open>Writing\<close>

text \<open>\<open>wr i n\<close> is what the \<open>i\<close>-th call of \<open>write\<close> returns when asked for \<open>n\<close> bytes: the
  number it wrote, or a value that is not positive. \<open>sink\<close> is the file and the number of calls
  so far.\<close>

record sink =
  written :: "byte list"
  calls :: nat

definition sys_write :: "(nat \<Rightarrow> nat \<Rightarrow> int) \<Rightarrow> byte list \<Rightarrow> sink \<Rightarrow> int \<times> sink" where
  "sys_write wr s k =
     (let r = wr (calls k) (length s) in (r, k\<lparr>written := written k @ take (nat r) s, calls := Suc (calls k)\<rparr>))"

text \<open>More bytes than were asked for would move the pointer out of the string.\<close>

function append_literal :: "(nat \<Rightarrow> nat \<Rightarrow> int) \<Rightarrow> cstring \<Rightarrow> sink \<Rightarrow> sink option" where
  "append_literal wr s k =
     (if s = [] then Some k
      else
        let (r, k1) = sys_write wr s k in
        if r \<le> 0 then Some k1
        else if int (length s) < r then None
        else append_literal wr (drop (nat r) s) k1)"
  by pat_completeness auto
termination
  by (relation "measure (\<lambda>(wr, s, k). length s)") auto

declare append_literal.simps [simp del]

text \<open>The digits of \<open>n\<close>, the last one first, at most \<open>slots\<close> of them.\<close>

fun digit_loop :: "nat \<Rightarrow> nat \<Rightarrow> byte list" where
  "digit_loop n 0 = []"
| "digit_loop n (Suc slots) = (if 0 < n then of_nat (48 + n mod 10) # digit_loop (n div 10) slots else [])"

text \<open>\<open>value\<close> is a 32-bit \<open>int\<close>: negating the smallest one overflows, which is undefined. The
  text must fit \<open>buf[32]\<close>.\<close>

definition append_int :: "(nat \<Rightarrow> nat \<Rightarrow> int) \<Rightarrow> int \<Rightarrow> sink \<Rightarrow> sink option" where
  "append_int wr v k =
     (if v = - (2 ^ 31) then None
      else
        let sign = (if v < 0 then [45] else []);
            n = nat \<bar>v\<bar>;
            ds = (if n = 0 then [48] else rev (digit_loop n 16));
            buf = sign @ ds in
        if 32 < length buf then None else Some (snd (sys_write wr buf k)))"

subsection \<open>Signals\<close>

datatype disposition = SIG_DFL | Crash_handler

definition SIGILL :: int where "SIGILL = 4"
definition SIGABRT :: int where "SIGABRT = 6"
definition SIGBUS :: int where "SIGBUS = 7"
definition SIGFPE :: int where "SIGFPE = 8"
definition SIGSEGV :: int where "SIGSEGV = 11"

text \<open>The process: its signal dispositions, the signals it has raised itself, its log files, and
  the two static variables.\<close>

record process =
  handlers :: "int \<Rightarrow> disposition"
  raised :: "int list"
  log_file :: "cstring \<Rightarrow> byte list"
  crash_log_path :: "cstring ptr"
  installed :: bool

definition crash_signal_handler :: "(cstring \<Rightarrow> int) \<Rightarrow> (nat \<Rightarrow> nat \<Rightarrow> int) \<Rightarrow> int \<Rightarrow> process \<Rightarrow> process option" where
  "crash_signal_handler open_fd wr signum p = do {
     let path = (case crash_log_path p of None \<Rightarrow> bytes ''raoui-crash.log'' | Some x \<Rightarrow> x);
     p1 \<leftarrow> (if 0 \<le> open_fd path then do {
              k1 \<leftarrow> append_literal wr (bytes ''fatal signal '') \<lparr>written = log_file p path, calls = 0\<rparr>;
              k2 \<leftarrow> append_int wr signum k1;
              k3 \<leftarrow> append_literal wr (bytes '' in rffi bridge'' @ [10]) k2;
              Some (p\<lparr>log_file := (log_file p)(path := written k3)\<rparr>)
            }
            else Some p);
     let p2 = p1\<lparr>handlers := (handlers p1)(signum := SIG_DFL)\<rparr>;
     Some (p2\<lparr>raised := raised p2 @ [signum]\<rparr>)
   }"

definition install_crash_signal_handlers :: "process \<Rightarrow> process" where
  "install_crash_signal_handlers p =
     (if installed p then p
      else p\<lparr>handlers := foldl (\<lambda>h sig. h(sig := Crash_handler)) (handlers p) [SIGABRT, SIGSEGV, SIGBUS, SIGILL, SIGFPE],
             installed := True\<rparr>)"

definition rffi_set_crash_log_path :: "cstring ptr \<Rightarrow> process \<Rightarrow> process" where
  "rffi_set_crash_log_path path p = install_crash_signal_handlers (p\<lparr>crash_log_path := path\<rparr>)"

definition caml_rffi_set_crash_log_path :: "byte list \<Rightarrow> process \<Rightarrow> process" where
  "caml_rffi_set_crash_log_path v_path p = rffi_set_crash_log_path (Some (until_nul v_path)) p"

subsection \<open>Laws\<close>

text \<open>A \<open>write\<close> that makes progress, never more than asked for.\<close>

definition progress :: "(nat \<Rightarrow> nat \<Rightarrow> int) \<Rightarrow> bool" where
  "progress wr \<longleftrightarrow> (\<forall>i n. 0 < n \<longrightarrow> 1 \<le> wr i n \<and> wr i n \<le> int n)"

lemma append_literal_complete:
  "progress wr \<Longrightarrow> \<exists>k'. append_literal wr s k = Some k' \<and> written k' = written k @ s"
proof (induction wr s k rule: append_literal.induct)
  case (1 wr s k)
  show ?case
  proof (cases "s = []")
    case True
    then show ?thesis by (simp add: append_literal.simps)
  next
    case False
    let ?r = "wr (calls k) (length s)"
    have r: "1 \<le> ?r" "?r \<le> int (length s)" using 1(2) False by (auto simp: progress_def)
    obtain k1 where sw: "sys_write wr s k = (?r, k1)" and w: "written k1 = written k @ take (nat ?r) s"
      by (simp add: sys_write_def Let_def)
    have step: "append_literal wr s k = append_literal wr (drop (nat ?r) s) k1"
      by (subst append_literal.simps) (use False r sw in simp)
    obtain k' where "append_literal wr (drop (nat ?r) s) k1 = Some k'" "written k' = written k1 @ drop (nat ?r) s"
      using 1(1) [OF False sw [symmetric]] r 1(2) by auto
    with step w show ?thesis by simp
  qed
qed

lemma bytes_digits_rec: "bytes (digits n) = (if n < 10 then [of_nat (48 + n)] else bytes (digits (n div 10)) @ [of_nat (48 + n mod 10)])"
  by (subst digits.simps) (simp add: of_char_of take_bit_eq_mod)

text \<open>The hand-written conversion prints what \<open>%d\<close> prints.\<close>

lemma digit_loop_digits: "0 < n \<Longrightarrow> n < 10 ^ slots \<Longrightarrow> rev (digit_loop n slots) = bytes (digits n)"
proof (induction slots arbitrary: n)
  case 0
  then show ?case by simp
next
  case (Suc slots)
  show ?case
  proof (cases "n < 10")
    case True
    then have "digit_loop (n div 10) slots = []" by (cases slots) auto
    with True Suc.prems show ?thesis by (simp add: bytes_digits_rec)
  next
    case False
    have "n div 10 < 10 ^ slots" using Suc.prems(2) by (simp add: less_mult_imp_div_less)
    with Suc.IH [of "n div 10"] False Suc.prems show ?thesis by (simp add: bytes_digits_rec [of n])
  qed
qed

lemma append_int_decimal:
  assumes "- (2 ^ 31) < v" "v < 2 ^ 31"
  shows "append_int wr v k = Some (snd (sys_write wr (bytes (decimal v)) k))"
proof -
  let ?n = "nat \<bar>v\<bar>"
  have lt: "?n < 10 ^ 16" using assms by auto
  have "(if ?n = 0 then [48] else rev (digit_loop ?n 16)) = bytes (digits ?n)"
    using digit_loop_digits [of ?n 16] lt by (simp add: bytes_digits_rec [of 0])
  then have buf: "(if v < 0 then [45] else []) @ (if ?n = 0 then [48] else rev (digit_loop ?n 16)) = bytes (decimal v)"
    by (cases "v < 0") (simp_all add: decimal_def)
  have "length (decimal v) \<le> 11" using assms by (intro length_decimal) auto
  then show ?thesis using assms(1) unfolding append_int_def Let_def buf by simp
qed

lemma decimal_nonempty: "decimal v \<noteq> []"
proof -
  have "digits n \<noteq> []" for n by (subst digits.simps) simp
  then show ?thesis by (simp add: decimal_def)
qed

subsection \<open>Properties\<close>

text \<open>C36: When a fatal signal arrives and the log file (the configured one or \<open>raoui-crash.log\<close>) can be
  opened, the handler appends \<open>fatal signal\<close>, the number of the signal and \<open>in rffi bridge\<close> to it,
  then restores the default action of that signal and raises it again, so the process still dies
  of it. Every other log file and disposition is as before. Assumed of \<open>write\<close> is that it does not fail:
  it takes at least one byte, and no more than asked for. The two literals are complete even if they
  are written piece by piece. The number is one write that is not continued: of its decimal
  digits the log gets what that write took, all of them unless the write is short.\<close>

theorem crash_handler_line:
  assumes "0 \<le> open_fd path" "\<And>i n. 0 < n \<Longrightarrow> 1 \<le> wr i n \<and> wr i n \<le> int n"
    "path = (case crash_log_path p of None \<Rightarrow> bytes ''raoui-crash.log'' | Some x \<Rightarrow> x)"
    "0 \<le> signum" "signum < 2 ^ 31"
  shows "\<exists>i. let ds = take (nat (wr i (length (decimal signum)))) (bytes (decimal signum)) in
    ds \<noteq> [] \<and> (wr i (length (decimal signum)) = int (length (decimal signum)) \<longrightarrow> ds = bytes (decimal signum)) \<and>
    crash_signal_handler open_fd wr signum p = Some (p\<lparr>
      log_file := (log_file p)(path := log_file p path @ bytes ''fatal signal '' @ ds @ bytes '' in rffi bridge'' @ [10]),
      handlers := (handlers p)(signum := SIG_DFL), raised := raised p @ [signum]\<rparr>)"
proof -
  have pr: "progress wr" using assms(2) by (simp add: progress_def)
  obtain k1 where k1: "append_literal wr (bytes ''fatal signal '') \<lparr>written = log_file p path, calls = 0\<rparr> = Some k1"
    "written k1 = log_file p path @ bytes ''fatal signal ''"
    using append_literal_complete [OF pr, of "bytes ''fatal signal ''" "\<lparr>written = log_file p path, calls = 0\<rparr>"] by auto
  let ?k2 = "snd (sys_write wr (bytes (decimal signum)) k1)" and ?r = "wr (calls k1) (length (decimal signum))"
  let ?ds = "take (nat ?r) (bytes (decimal signum))"
  have k2: "append_int wr signum k1 = Some ?k2" by (rule append_int_decimal) (use assms(4,5) in auto)
  have w2: "written ?k2 = written k1 @ ?ds" by (simp add: sys_write_def Let_def)
  obtain k3 where k3: "append_literal wr (bytes '' in rffi bridge'' @ [10]) ?k2 = Some k3"
    "written k3 = written ?k2 @ bytes '' in rffi bridge'' @ [10]"
    using append_literal_complete [OF pr] by blast
  have "crash_signal_handler open_fd wr signum p = Some (p\<lparr>
      log_file := (log_file p)(path := log_file p path @ bytes ''fatal signal '' @ ?ds @ bytes '' in rffi bridge'' @ [10]),
      handlers := (handlers p)(signum := SIG_DFL), raised := raised p @ [signum]\<rparr>)"
    unfolding crash_signal_handler_def Let_def assms(3) [symmetric]
    using assms(1) k1 k2 w2 k3 by (simp del: bytes_simps)
  moreover have "decimal signum \<noteq> []" by (rule decimal_nonempty)
  then have "?ds \<noteq> []" "?r = int (length (decimal signum)) \<longrightarrow> ?ds = bytes (decimal signum)"
    using assms(2) [of "length (decimal signum)" "calls k1"] by (auto simp: bytes_def)
  ultimately show ?thesis unfolding Let_def by blast
qed

text \<open>The literals byte by byte, the number at once; and a write that takes only one byte, which loses
  the second digit.\<close>

theorem crash_handler_line_witness:
  "crash_signal_handler (\<lambda>_. 3) (\<lambda>i n. if n = 2 then 2 else 1) SIGSEGV
      \<lparr>handlers = (\<lambda>_. Crash_handler), raised = [], log_file = (\<lambda>_. []), crash_log_path = None, installed = True\<rparr>
   = Some \<lparr>handlers = (\<lambda>_. Crash_handler)(11 := SIG_DFL), raised = [11],
       log_file = (\<lambda>_. [])(bytes ''raoui-crash.log'' := bytes ''fatal signal 11 in rffi bridge'' @ [10]),
       crash_log_path = None, installed = True\<rparr> \<and>
   crash_signal_handler (\<lambda>_. 3) (\<lambda>i n. 1) SIGSEGV
      \<lparr>handlers = (\<lambda>_. Crash_handler), raised = [], log_file = (\<lambda>_. []), crash_log_path = None, installed = True\<rparr>
   = Some \<lparr>handlers = (\<lambda>_. Crash_handler)(11 := SIG_DFL), raised = [11],
       log_file = (\<lambda>_. [])(bytes ''raoui-crash.log'' := bytes ''fatal signal 1 in rffi bridge'' @ [10]),
       crash_log_path = None, installed = True\<rparr>"
  using crash_handler_line [of "\<lambda>_. 3" "bytes ''raoui-crash.log''" "\<lambda>i n. if n = 2 then 2 else 1"
      "\<lparr>handlers = (\<lambda>_. Crash_handler), raised = [], log_file = (\<lambda>_. []), crash_log_path = None, installed = True\<rparr>" 11]
    crash_handler_line [of "\<lambda>_. 3" "bytes ''raoui-crash.log''" "\<lambda>i n. 1"
      "\<lparr>handlers = (\<lambda>_. Crash_handler), raised = [], log_file = (\<lambda>_. []), crash_log_path = None, installed = True\<rparr>" 11]
  by (simp add: SIGSEGV_def decimal_def digits.simps)

text \<open>\<open>append_int\<close> writes the usual decimal notation of every \<open>int\<close> but the smallest, for which its
  negation overflows; its 16-digit and 32-byte buffers are never exceeded.\<close>

theorem append_int_correct:
  "append_int wr (sint (v :: 32 word)) k =
     (if sint v = - (2 ^ 31) then None else Some (snd (sys_write wr (bytes (decimal (sint v))) k)))"
proof -
  have "- (2 ^ 31) \<le> sint v" "sint v < 2 ^ 31" using sint_range_size [of v] by (auto simp: word_size)
  then show ?thesis using append_int_decimal [of "sint v" wr k] by (auto simp: append_int_def)
qed

text \<open>Configuring the crash log installs the handler for the five fatal signals once, touches no
  other signal, and a later call only changes the path.\<close>

theorem crash_handlers_installed:
  "installed (rffi_set_crash_log_path path p) \<and> crash_log_path (rffi_set_crash_log_path path p) = path \<and>
   (\<not> installed p \<longrightarrow> (\<forall>sig. handlers (rffi_set_crash_log_path path p) sig =
      (if sig \<in> {SIGABRT, SIGSEGV, SIGBUS, SIGILL, SIGFPE} then Crash_handler else handlers p sig))) \<and>
   (installed p \<longrightarrow> rffi_set_crash_log_path path p = p\<lparr>crash_log_path := path\<rparr>)"
  by (auto simp: rffi_set_crash_log_path_def install_crash_signal_handlers_def)

theorem crash_handlers_installed_witness:
  "handlers (rffi_set_crash_log_path None \<lparr>handlers = (\<lambda>_. SIG_DFL), raised = [], log_file = (\<lambda>_. []),
     crash_log_path = None, installed = False\<rparr>) SIGBUS = Crash_handler"
  using crash_handlers_installed [of None "\<lparr>handlers = (\<lambda>_. SIG_DFL), raised = [], log_file = (\<lambda>_. []),
     crash_log_path = None, installed = False\<rparr>"] by simp

end
