(* ===== verification/Spec2Isabelle.thy ===== *)
theory Spec2Isabelle
  imports Startup_Props Worker_Props Run_R_Props Eval_Props Sandbox_Props Seatbelt Crash_Log
begin

text \<open>
  \<^bold>\<open>The bridge between raoui and R\<close>

  raoui is a terminal frontend for R. Its core is a C library (\<open>src/c_ffi\<close>) that loads \<open>libR\<close> at
  run time, runs it on a worker thread of its own, and talks to the OCaml frontend through stubs
  (\<open>src/lib/rffi_stubs.c\<close>). This development models that library, all of its seven files, and
  proves what the frontend may rely on.

  \<^bold>\<open>The parts and how they interact.\<close> The frontend posts requests into slots (a command, a completion, a
  column request, a sandboxed evaluation). The worker thread takes them one by one and calls R. R
  calls back for console output and input, \<open>system()\<close> and images, and the callbacks push messages
  into a ring buffer that drops the oldest ones when it is full; the frontend pops them. A
  sandboxed evaluation forks; the child confines itself (Landlock and seccomp on Linux, Seatbelt
  on macOS), evaluates, and writes to a pipe that the worker drains under a watchdog.

  \<^bold>\<open>Theories and sources.\<close>

  \<^item> \<open>C_Prelude\<close>: what the code uses of C: \<open>size_t\<close> arithmetic with its wrap-around, memory blocks with
    bounds-checked \<open>memcpy\<close>, stores and \<open>realloc\<close>, C strings, \<open>snprintf\<close>, decimal notation.
  \<^item> \<open>Ring_Buffer\<close> (\<open>c_ffi/ring_buffer.c\<close>, \<open>ring_buffer.h\<close>): every function, on the byte level.
    \<open>Ring_Spec\<close> is the abstract drop-oldest queue, \<open>Ring_Refine\<close> the simulation, \<open>Ring_Queue\<close> the
    interface (a locale for a bounded queue, interpreted on the ring) and its properties.
  \<^item> \<open>Bridge_State\<close>, \<open>Bridge_Api\<close> (\<open>c_ffi/load_r.c\<close>, \<open>r_bridge.h\<close>, \<open>lib/rffi_stubs.c\<close>): the globals as
    one record, the functions that the frontend's threads call, the stubs, and the interference
    of those threads. \<open>Bridge_Stream\<close> relates what is pushed (the history variable \<open>pushed\<close>) to what
    OCaml receives (\<open>frontend_log\<close>).
  \<^item> \<open>Callbacks\<close>, \<open>Callback_Laws\<close> (\<open>load_r.c\<close>): console output and input, passthrough, images, calls
    into R; the locale of a gate, interpreted on the two gates that the worker polls.
  \<^item> \<open>Eval\<close>, \<open>Eval_Laws\<close>, \<open>Eval_Protocol\<close>, \<open>Eval_Props\<close> (\<open>load_r.c\<close>): \<open>eval_code\<close>, \<open>eval_for_string\<close>, the
    top-level hook, events, completions and column requests.
  \<^item> \<open>Sandbox_Linux\<close>, \<open>Sandbox_Laws\<close>, \<open>Sandbox_Props\<close> (\<open>c_ffi/sandbox_linux.c\<close>): the Landlock rules, the
    BPF program with an interpreter for it, and what the confined process may do.
  \<^item> \<open>Seatbelt\<close> (\<open>load_r.c\<close>): the builder of the macOS profile. \<open>Crash_Log\<close> (\<open>load_r.c\<close>): the handler of
    fatal signals.
  \<^item> \<open>Run_R\<close>, \<open>Run_R_Laws\<close>, \<open>Run_R_Props\<close> (\<open>load_r.c\<close>): the two sides of a sandboxed evaluation.
  \<^item> \<open>Worker\<close> (\<open>load_r.c\<close>, \<open>rffi_stubs.c\<close>): loading \<open>libR\<close>, startup, the worker's loop as a step
    relation, the caller of a sandboxed evaluation, shutdown. \<open>Worker_Laws\<close> has the locales for
    what a callback and a whole evaluation leave alone, interpreted on the request slots and on
    the worker's readiness; \<open>Worker_Progress\<close> the invariant, progress, the locale for what whole rounds
    keep, interpreted on readiness and on the stream, and the abstract machine over the slots;
    \<open>Worker_Props\<close> the properties. \<open>Startup\<close>, \<open>Startup_Props\<close>: startup and shutdown.
  \<^item> this theory: the properties that span all of it.

  \<^bold>\<open>How code is modelled.\<close> A C function is a function on the state record with result type \<open>option\<close>:
  \<open>None\<close> is undefined behaviour (an access outside a block, a mutex misused, a popped empty
  protection stack) or a loop or wait that never ends. So a theorem that a call gives \<open>Some\<close> says
  that it is safe and that it returns. Return codes are values. Loops without a bound
  (the evictions of \<open>rb_push\<close>, the polling of a gate, the wait for an answer) are partial functions
  and are proved to return; the loop over poll and read recurses over the rounds that the
  operating system answers, and is shown to end once the clock passes the watchdog's 30 seconds
  or the pipe ends. There is no fuel. The blocking \<open>waitpid\<close> that follows returns only if the child
  ends, by itself or because it was killed; a write of the child to its pipe may be short, within
  what POSIX allows, or end the child by \<open>SIGPIPE\<close>.

  Two fields of the state are history variables that no function reads: \<open>pushed\<close>, every message
  handed to \<open>rb_push\<close>, and \<open>frontend_log\<close>, every message that OCaml got. The statements about what an
  operation pushes are equations on \<open>pushed\<close>, so they fix the messages exactly; \<open>extends\<close> relates them
  to what reaches the frontend.

  \<open>libR\<close>, the kernel, the dynamic linker and the threads library are not in the repository and are
  parameters (the records \<open>r_api\<close>, \<open>kernel\<close>, \<open>boot\<close>, \<open>os_answers\<close>). A call into R is the finite tree of
  the callbacks it makes, ending in a return or in a jump to top level; R's heap is a type
  variable. Other threads are a schedule: at each point where the worker touches shared state
  the next batch of frontend actions happens, each one a critical section or an atomic store, and
  the theorems hold for all schedules (or for those that post no new request, \<open>calm\<close>).

  \<^bold>\<open>What is shown.\<close> The ring refines the drop-oldest queue, on every sequence of calls, and loses nothing
  while it has room. An evaluation ends with exactly one end marker, last, with at most one error
  before it and a balanced protection stack, whatever R does. Console input, passthrough, images
  and completions follow their protocols. The worker keeps its invariant through any number of
  rounds, is never stuck, serves the slots in a fixed order and lets none starve; the frontend
  receives nothing but what was pushed, in order and at most once; a sandboxed
  evaluation gets the answer to its own code. The child runs code only when it is confined; then
  credential stores are unreadable, writes stay in the scratch directory, and the filter decides
  as specified. Startup succeeds exactly when all it needs is there, hands its output over once,
  and a session ends with the ring released. Where the code does less than its comments say (a
  working directory inside a credential store, truncation on old kernels, rules that could not be
  added, a child that nobody kills) the theorems say that too.

  \<^bold>\<open>Not modelled.\<close> The OCaml frontend (\<open>lib\<close>, \<open>bin\<close>), the R scripts, the theme editor, tests and packaging:
  they are clients of the bridge or no core logic. \<open>cb_suicide\<close> prints and exits. Exhaustion of memory
  (results of \<open>malloc\<close> and \<open>realloc\<close> that the code does not check), the CPU limit of the child, the
  closing of descriptors and \<open>errno\<close> are left out; so are the runtime lock and the garbage
  collector of OCaml in the stubs. What \<open>sandbox_init\<close> makes of a Seatbelt profile is not
  documented, so the profile is verified as a text. Each action of another thread is atomic, as
  its mutex or atomic variable makes it in the code.
\<close>

section \<open>Properties that span the components\<close>

text \<open>C8: A sandboxed evaluation, end to end. OCaml passes code to \<open>caml_rffi_run_r_sandboxed\<close>; the worker
  forks, and the child runs on its copy of the bridge. If the pipe delivers what the child wrote
  and ends before the watchdog fires, OCaml gets exactly that (up to a NUL byte), with nothing
  added. And the child either ran the code confined (no new privileges, a Landlock domain, the
  seccomp filter), or ran none of it and the answer is the line that says why.\<close>

theorem sandbox_end_to_end:
  assumes "live s" "write_console s = Cb_write_console_ex" "ready s" "calm s" "\<not> shutdown_flag s" "well_behaved api"
    "\<And>code. responsive (answers code)" "pipe_rc (answers (until_nul v_code)) = 0" "0 \<le> fork_rc (answers (until_nul v_code))"
    "live sc" "runr_pipe sc = []" "run_child k home api fd (until_nul v_code) dyn c sc = Some (st, sc', c')"
    "waited (answers (until_nul v_code)) = Wait_status (Exited st)"
    "delivers (start_time (answers (until_nul v_code))) (runr_pipe sc') (rounds (answers (until_nul v_code)))"
  shows "(\<exists>s'. caml_rffi_run_r_sandboxed api answers v_code s = Some (until_nul (runr_pipe sc'), s')) \<and>
    (st = 0 \<and> no_new_privs c' \<and> domain c' \<noteq> None \<and> seccomp c' = Some seccomp_filter \<or>
     st = 98 \<and> r_heap sc' = r_heap sc \<and> (\<exists>reason. runr_pipe sc' = bytes (''[run_r] sandbox setup failed: '' @ reason) @ [10]))"
proof
  let ?os = "answers (until_nul v_code)"
  have "received (start_time ?os) (rounds ?os) = Some (False, runr_pipe sc')" by (rule delivers_received [OF assms(14)])
  then have "runr_reply ?os = until_nul (runr_pipe sc')"
    using assms(8,9,13) by (simp add: runr_reply_def exit_note_def waitpid_st_def)
  moreover have "\<exists>s'. caml_rffi_run_r_sandboxed api answers v_code s = Some (runr_reply ?os, s') \<and>
      pending_runr s' = None \<and> pending_cmd s' = None \<and> runr_result s' = None"
    by (rule run_r_sandboxed_reply [OF assms(1-7)])
  ultimately show "\<exists>s'. caml_rffi_run_r_sandboxed api answers v_code s = Some (until_nul (runr_pipe sc'), s')" by auto
  show "st = 0 \<and> no_new_privs c' \<and> domain c' \<noteq> None \<and> seccomp c' = Some seccomp_filter \<or>
     st = 98 \<and> r_heap sc' = r_heap sc \<and> (\<exists>reason. runr_pipe sc' = bytes (''[run_r] sandbox setup failed: '' @ reason) @ [10])"
    using run_child_outcome [OF assms(10,12)] assms(11) by auto
qed

text \<open>What the child of the example says when the kernel has no Landlock.\<close>

definition refused :: "byte list" where
  "refused = bytes ''[run_r] sandbox setup failed: Landlock is unavailable on this kernel'' @ [10]"

definition refused_os :: os_answers where
  "refused_os = \<lparr>pipe_rc = 0, fork_rc = 77, start_time = (100, 0),
     rounds = [\<lparr>now_sec = 100, now_nsec = 5, polled = Poll_ready, read_back = Read_data (take 20 refused)\<rparr>,
       \<lparr>now_sec = 100, now_nsec = 9, polled = Poll_eintr, read_back = Read_error\<rparr>,
       \<lparr>now_sec = 101, now_nsec = 0, polled = Poll_ready, read_back = Read_data (drop 20 refused)\<rparr>,
       \<lparr>now_sec = 101, now_nsec = 7, polled = Poll_ready, read_back = Read_eof\<rparr>],
     waited = Wait_status (Exited 98)\<rparr>"

theorem sandbox_end_to_end_witness:
  "\<exists>s'. caml_rffi_run_r_sandboxed (demo_api False) (\<lambda>_. refused_os) (bytes ''1'') (fresh_bridge []) = Some (until_nul refused, s')"
proof -
  let ?c = "run_child (demo_kernel 0) None (demo_api False) 5 (until_nul (bytes ''1'')) None demo_child (fresh_bridge [])"
  obtain sc' c' where r: "?c = Some (98, sc', c')" "runr_pipe sc' = refused"
    by (simp add: run_child_def raoui_sandbox_apply_def apply_landlock_def demo_kernel_def snprintf_def pipe_write_def refused_def fresh_bridge_def)
  have d: "delivers (start_time refused_os) refused (rounds refused_os)"
    by (simp add: refused_os_def refused_def elapsed_ms_def RUNR_WALL_TIMEOUT_MS_def signed_divide_int_def)
  have l: "length refused = 69" by (simp add: refused_def)
  have "sane_rounds (rounds refused_os)" using l by (simp add: sane_rounds_def refused_os_def)
  moreover have "waited refused_os = Wait_status (Exited 98)" by (simp add: refused_os_def)
  ultimately have o: "responsive refused_os" using d unfolding responsive_def signals_ok_def by auto
  have p: "runr_pipe (fresh_bridge []) = []" "calm (fresh_bridge [])" by (simp_all add: fresh_bridge_def calm_def)
  have lv: "live (fresh_bridge [])" by (rule fresh_bridge_live) simp
  have q: "pipe_rc refused_os = 0" "0 \<le> fork_rc refused_os" "waited refused_os = Wait_status (Exited 98)" by (simp_all add: refused_os_def)
  from sandbox_end_to_end [OF lv _ fresh_bridge_ready p(2) _ demo_api_well_behaved, where answers = "\<lambda>_. refused_os", OF _ _ o q(1,2) lv p(1) r(1) q(3)]
    d r(2) show ?thesis by simp
qed

end
